theory Spec2Isabelle
  imports Complex_Main "HOL-Library.Word"
begin

unbundle bit_operations_syntax

section \<open>Numbers and vectors\<close>

text \<open>
  JavaScript numbers are modelled as \<^typ>\<open>real\<close>: the arithmetic of the source is read
  as exact arithmetic. Where the source divides by a quantity that can be zero, the model
  says so explicitly, because JavaScript then yields NaN or an infinity and \<^typ>\<open>real\<close>
  has neither.
\<close>

record Vector =
  x :: real
  y :: real

definition v :: "real \<Rightarrow> real \<Rightarrow> Vector" where
  "v a b = \<lparr>x = a, y = b\<rparr>"

text \<open>
  Modelled from the spec: \<open>distanceSquared\<close> of \<open>common/src/utils/math\<close>, which is
  not among the sources; the spec calls it the squared distance between two positions.
\<close>

definition distanceSquared :: "Vector \<Rightarrow> Vector \<Rightarrow> real" where
  "distanceSquared a b = (x a - x b)\<^sup>2 + (y a - y b)\<^sup>2"

section \<open>Bit stream codec\<close>

text \<open>
  Modelled from the spec: the base class \<open>BitStream\<close> of the package
  \<open>@damienvesper/bit-buffer\<close>, which \<open>SuroiBitStream\<close> extends and which is not among
  the sources. The spec describes a fixed-capacity buffer with a write cursor and an
  independent read cursor, both counted in bits; \<open>writeBits value n\<close> stores the low
  \<open>n\<close> bits of the value converted to a 32-bit integer (least significant bit first),
  \<open>readBits n\<close> returns the next \<open>n\<close> bits as an unsigned number, and an access
  beyond the buffer is a fatal error.
\<close>

record BitStream =
  buffer :: "bool list"
  writeIndex :: nat
  readIndex :: nat

datatype StreamError = OutOfRange | NotFinite

definition alloc :: "nat \<Rightarrow> BitStream" where
  "alloc len = \<lparr>buffer = replicate (8 * len) False, writeIndex = 0, readIndex = 0\<rparr>"

text \<open>Truncation of a finite number towards zero, and ECMAScript's ToInt32 on top of it.\<close>

definition jsTrunc :: "real \<Rightarrow> int" where
  "jsTrunc r = (if 0 \<le> r then \<lfloor>r\<rfloor> else \<lceil>r\<rceil>)"

definition toInt32 :: "real \<Rightarrow> int" where
  "toInt32 r = sint (word_of_int (jsTrunc r) :: 32 word)"

fun bitsToNat :: "bool list \<Rightarrow> nat" where
  "bitsToNat [] = 0"
| "bitsToNat (b # bs) = of_bool b + 2 * bitsToNat bs"

definition writeBits :: "real \<Rightarrow> nat \<Rightarrow> BitStream \<Rightarrow> StreamError + BitStream" where
  "writeBits val bits s =
     (if writeIndex s + bits > length (buffer s) then Inl OutOfRange
      else Inr (s\<lparr>buffer := take (writeIndex s) (buffer s)
                          @ map (bit (toInt32 val)) [0..<bits]
                          @ drop (writeIndex s + bits) (buffer s),
                   writeIndex := writeIndex s + bits\<rparr>))"

definition readBits :: "nat \<Rightarrow> BitStream \<Rightarrow> StreamError + (nat \<times> BitStream)" where
  "readBits bits s =
     (if readIndex s + bits > length (buffer s) then Inl OutOfRange
      else Inr (bitsToNat (take bits (drop (readIndex s) (buffer s))),
                s\<lparr>readIndex := readIndex s + bits\<rparr>))"

definition writeBoolean :: "bool \<Rightarrow> BitStream \<Rightarrow> StreamError + BitStream" where
  "writeBoolean b s = writeBits (if b then 1 else 0) 1 s"

definition readBoolean :: "BitStream \<Rightarrow> StreamError + (bool \<times> BitStream)" where
  "readBoolean s =
     (case readBits 1 s of Inl e \<Rightarrow> Inl e | Inr (n, s') \<Rightarrow> Inr (n \<noteq> 0, s'))"

text \<open>
  The expression \<open>1 << bitCount\<close> of the source: a shift of a 32-bit integer, whose
  shift count is taken modulo 32 and whose result is read as a signed number.
\<close>

definition shiftLeft1 :: "nat \<Rightarrow> int" where
  "shiftLeft1 bitCount = sint (push_bit (bitCount mod 32) (1 :: 32 word))"

text \<open>
  \<open>writeFloat\<close>. When \<open>max = min\<close> the source computes \<open>0 / 0\<close>, which is NaN, and
  NaN is written as the integer 0.
\<close>

definition writeFloat ::
  "real \<Rightarrow> real \<Rightarrow> real \<Rightarrow> nat \<Rightarrow> BitStream \<Rightarrow> StreamError + BitStream" where
  "writeFloat val min' max' bitCount s =
     (let range = real_of_int (shiftLeft1 bitCount - 1);
          clamped = (if val < max' then (if val > min' then val else min') else max')
      in if max' = min' then writeBits 0 bitCount s
         else writeBits (((clamped - min') / (max' - min')) * range + 0.5) bitCount s)"

text \<open>
  \<open>readFloat\<close>. When the range is 0 the source divides by zero and returns NaN or an
  infinity; the model reports this as \<open>NotFinite\<close>.
\<close>

definition readFloat ::
  "real \<Rightarrow> real \<Rightarrow> nat \<Rightarrow> BitStream \<Rightarrow> StreamError + (real \<times> BitStream)" where
  "readFloat min' max' bitCount s =
     (let range = real_of_int (shiftLeft1 bitCount - 1)
      in case readBits bitCount s of
           Inl e \<Rightarrow> Inl e
         | Inr (n, s') \<Rightarrow>
             if range = 0 then Inl NotFinite
             else Inr (min' + (max' - min') * real n / range, s'))"

text \<open>
  The spec's description of the quantisation, for comparison with the code: the value is
  clamped to the bounds, mapped linearly to the integers from 0 to \<open>2 ^ bitCount - 1\<close> and
  rounded to the nearest one by adding one half before truncating; reading is the
  inverse linear mapping.
\<close>

definition specQuantize :: "real \<Rightarrow> real \<Rightarrow> real \<Rightarrow> nat \<Rightarrow> int" where
  "specQuantize val min' max' bitCount =
     \<lfloor>(max min' (min max' val) - min') / (max' - min') * (2 ^ bitCount - 1) + 1 / 2\<rfloor>"

definition specDequantize :: "int \<Rightarrow> real \<Rightarrow> real \<Rightarrow> nat \<Rightarrow> real" where
  "specDequantize q min' max' bitCount =
     min' + (max' - min') * real_of_int q / (2 ^ bitCount - 1)"

definition writeVector2 ::
  "real \<Rightarrow> real \<Rightarrow> real \<Rightarrow> real \<Rightarrow> real \<Rightarrow> real \<Rightarrow> nat \<Rightarrow> BitStream
     \<Rightarrow> StreamError + BitStream" where
  "writeVector2 vx vy minX minY maxX maxY bitCount s =
     (case writeFloat vx minX maxX bitCount s of
        Inl e \<Rightarrow> Inl e
      | Inr s' \<Rightarrow> writeFloat vy minY maxY bitCount s')"

definition writeVector ::
  "Vector \<Rightarrow> real \<Rightarrow> real \<Rightarrow> real \<Rightarrow> real \<Rightarrow> nat \<Rightarrow> BitStream
     \<Rightarrow> StreamError + BitStream" where
  "writeVector vector minX minY maxX maxY bitCount s =
     writeVector2 (x vector) (y vector) minX minY maxX maxY bitCount s"

definition readVector ::
  "real \<Rightarrow> real \<Rightarrow> real \<Rightarrow> real \<Rightarrow> nat \<Rightarrow> BitStream
     \<Rightarrow> StreamError + (Vector \<times> BitStream)" where
  "readVector minX minY maxX maxY bitCount s =
     (case readFloat minX maxX bitCount s of
        Inl e \<Rightarrow> Inl e
      | Inr (rx, s') \<Rightarrow>
          (case readFloat minY maxY bitCount s' of
             Inl e \<Rightarrow> Inl e
           | Inr (ry, s'') \<Rightarrow> Inr (\<lparr>x = rx, y = ry\<rparr>, s'')))"

text \<open>
  The enumerations of \<open>common/src/constants\<close> enter the codec through their sizes only:
  a numeric TypeScript enum with \<open>n\<close> members has \<open>2 * n\<close> keys, and
  \<open>calculateEnumPacketBits\<close> is the ceiling of the binary logarithm of half of them.
\<close>

definition calculateEnumPacketBits :: "nat \<Rightarrow> nat" where
  "calculateEnumPacketBits keys = nat \<lceil>log 2 (real keys / 2)\<rceil>"

definition PACKET_TYPE_BITS :: nat where
  "PACKET_TYPE_BITS = calculateEnumPacketBits 20"

definition OBJECT_ID_BITS :: nat where
  "OBJECT_ID_BITS = 11"

definition VARIATION_BITS :: nat where
  "VARIATION_BITS = 3"

definition writePacketType :: "nat \<Rightarrow> BitStream \<Rightarrow> StreamError + BitStream" where
  "writePacketType val s = writeBits (real val) PACKET_TYPE_BITS s"

definition readPacketType :: "BitStream \<Rightarrow> StreamError + (nat \<times> BitStream)" where
  "readPacketType s = readBits PACKET_TYPE_BITS s"

definition writeObjectID :: "nat \<Rightarrow> BitStream \<Rightarrow> StreamError + BitStream" where
  "writeObjectID ident s = writeBits (real ident) OBJECT_ID_BITS s"

definition readObjectID :: "BitStream \<Rightarrow> StreamError + (nat \<times> BitStream)" where
  "readObjectID s = readBits OBJECT_ID_BITS s"

definition writeVariation :: "nat \<Rightarrow> BitStream \<Rightarrow> StreamError + BitStream" where
  "writeVariation val s = writeBits (real val) VARIATION_BITS s"

definition readVariation :: "BitStream \<Rightarrow> StreamError + (nat \<times> BitStream)" where
  "readVariation s = readBits VARIATION_BITS s"

definition writePosition2 :: "real \<Rightarrow> real \<Rightarrow> BitStream \<Rightarrow> StreamError + BitStream" where
  "writePosition2 px py s = writeVector2 px (720 - py) 0 0 1024 1024 16 s"

definition writePosition :: "Vector \<Rightarrow> BitStream \<Rightarrow> StreamError + BitStream" where
  "writePosition vector s = writePosition2 (x vector) (y vector) s"

definition readPosition :: "BitStream \<Rightarrow> StreamError + (Vector \<times> BitStream)" where
  "readPosition s = readVector 0 0 1024 1024 16 s"

definition writeRotation :: "real \<Rightarrow> nat \<Rightarrow> BitStream \<Rightarrow> StreamError + BitStream" where
  "writeRotation val bitCount s = writeFloat val (- pi) pi bitCount s"

definition readRotation :: "nat \<Rightarrow> BitStream \<Rightarrow> StreamError + (real \<times> BitStream)" where
  "readRotation bitCount s = readFloat (- pi) pi bitCount s"

text \<open>
  Modelled from the spec: \<open>normalizeAngle\<close> of \<open>common/src/utils/math\<close>, which is not
  among the sources; the spec has rotations mapped to the range from \<open>-\<pi>\<close> to \<open>\<pi>\<close>, so
  the model returns the angle in that range that differs from its argument by a multiple
  of a full turn.
\<close>

definition normalizeAngle :: "real \<Rightarrow> real" where
  "normalizeAngle radians = radians - 2 * pi * real_of_int \<lceil>(radians - pi) / (2 * pi)\<rceil>"

definition writeObstacleRotation ::
  "real \<Rightarrow> string \<Rightarrow> BitStream \<Rightarrow> StreamError + BitStream" where
  "writeObstacleRotation val mode s =
     (if mode = ''full'' then writeRotation val 4 s
      else if mode = ''limited'' then writeBits val 2 s
      else if mode = ''binary'' then writeBits val 1 s
      else Inr s)"

definition readObstacleRotation ::
  "string \<Rightarrow> BitStream \<Rightarrow> StreamError + (real \<times> BitStream)" where
  "readObstacleRotation mode s =
     (if mode = ''full'' then readRotation 4 s
      else if mode = ''limited'' then
        (case readBits 2 s of
           Inl e \<Rightarrow> Inl e
         | Inr (n, s') \<Rightarrow> Inr (normalizeAngle (real n * (pi / 2)), s'))
      else if mode = ''binary'' then
        (case readBoolean s of
           Inl e \<Rightarrow> Inl e
         | Inr (b, s') \<Rightarrow> Inr (if b then pi / 2 else 0, s'))
      else Inr (0, s))"

definition OBJECT_CATEGORY_BITS :: nat where
  "OBJECT_CATEGORY_BITS = calculateEnumPacketBits 10"

definition MIN_OBJECT_SCALE :: real where
  "MIN_OBJECT_SCALE = 0.25"

definition MAX_OBJECT_SCALE :: real where
  "MAX_OBJECT_SCALE = 2"

definition PLAYER_NAME_MAX_LENGTH :: nat where
  "PLAYER_NAME_MAX_LENGTH = 16"

text \<open>
  Modelled from the spec: the class \<open>ObjectType\<close> (\<open>common/src/utils/objectType\<close>) and
  the list \<open>ObjectDefinitionsList\<close> (\<open>common/src/utils/objectDefinitionsList\<close>), which
  are not among the sources. The spec has the type of an object consist of a category
  and a sub-kind, and has it encoded as the category bits followed by index bits whose
  number is looked up per category. The model keeps the two fields that the codec reads,
  \<open>category\<close> and \<open>idNumber\<close>; \<open>fromNumber\<close> makes the type of a category and an
  index; \<open>categoryOnly\<close> makes a type without a sub-kind, to which the model gives the
  index -1, which is the index of no sub-kind. The list is a parameter of the functions:
  it gives the definitions of a category, of which the codec reads the bit count, primed
  here, or nothing for a category without definitions.
\<close>

record ObjectType =
  category :: nat
  idNumber :: int

definition fromNumber :: "nat \<Rightarrow> nat \<Rightarrow> ObjectType" where
  "fromNumber category' idNumber' = \<lparr>category = category', idNumber = int idNumber'\<rparr>"

definition categoryOnly :: "nat \<Rightarrow> ObjectType" where
  "categoryOnly category' = \<lparr>category = category', idNumber = - 1\<rparr>"

record ObjectDefinitions =
  bitCount' :: nat

definition writeObjectTypeNoCategory ::
  "(nat \<rightharpoonup> ObjectDefinitions) \<Rightarrow> ObjectType \<Rightarrow> BitStream \<Rightarrow> StreamError + BitStream" where
  "writeObjectTypeNoCategory ObjectDefinitionsList type s =
     (case ObjectDefinitionsList (category type) of
        Some definitions \<Rightarrow> writeBits (real_of_int (idNumber type)) (bitCount' definitions) s
      | None \<Rightarrow> Inr s)"

definition writeObjectType ::
  "(nat \<rightharpoonup> ObjectDefinitions) \<Rightarrow> ObjectType \<Rightarrow> BitStream \<Rightarrow> StreamError + BitStream" where
  "writeObjectType ObjectDefinitionsList type s =
     (case writeBits (real (category type)) OBJECT_CATEGORY_BITS s of
        Inl e \<Rightarrow> Inl e
      | Inr s' \<Rightarrow> writeObjectTypeNoCategory ObjectDefinitionsList type s')"

definition readObjectTypeNoCategory ::
  "(nat \<rightharpoonup> ObjectDefinitions) \<Rightarrow> nat \<Rightarrow> BitStream
     \<Rightarrow> StreamError + (ObjectType \<times> BitStream)" where
  "readObjectTypeNoCategory ObjectDefinitionsList category' s =
     (case ObjectDefinitionsList category' of
        Some definitions \<Rightarrow>
          (case readBits (bitCount' definitions) s of
             Inl e \<Rightarrow> Inl e
           | Inr (idNumber', s') \<Rightarrow> Inr (fromNumber category' idNumber', s'))
      | None \<Rightarrow> Inr (categoryOnly category', s))"

definition readObjectType ::
  "(nat \<rightharpoonup> ObjectDefinitions) \<Rightarrow> BitStream \<Rightarrow> StreamError + (ObjectType \<times> BitStream)" where
  "readObjectType ObjectDefinitionsList s =
     (case readBits OBJECT_CATEGORY_BITS s of
        Inl e \<Rightarrow> Inl e
      | Inr (category', s') \<Rightarrow> readObjectTypeNoCategory ObjectDefinitionsList category' s')"

definition writeScale :: "real \<Rightarrow> BitStream \<Rightarrow> StreamError + BitStream" where
  "writeScale val s = writeFloat val MIN_OBJECT_SCALE MAX_OBJECT_SCALE 8 s"

definition readScale :: "BitStream \<Rightarrow> StreamError + (real \<times> BitStream)" where
  "readScale s = readFloat MIN_OBJECT_SCALE MAX_OBJECT_SCALE 8 s"

text \<open>
  Modelled from the spec: \<open>writeUTF8String\<close> and \<open>readUTF8String\<close> of the base class
  \<open>BitStream\<close>. The spec has strings of a fixed maximum byte length in UTF-8, padded or
  truncated, with the length implied by a constant and not written. A string is
  modelled by the bytes of its UTF-8 encoding (the characters of \<^typ>\<open>string\<close> are
  bytes); the encoding and decoding themselves are not modelled. \<open>writeUTF8String\<close>
  writes exactly the given number of bytes, the first bytes of the string followed by
  zero bytes when the string is shorter; \<open>readUTF8String\<close> reads that many bytes and
  returns the ones before the first zero byte.
\<close>

fun writeBytes :: "nat list \<Rightarrow> BitStream \<Rightarrow> StreamError + BitStream" where
  "writeBytes [] s = Inr s"
| "writeBytes (byte # rest) s =
     (case writeBits (real byte) 8 s of
        Inl e \<Rightarrow> Inl e
      | Inr s' \<Rightarrow> writeBytes rest s')"

fun readBytes :: "nat \<Rightarrow> BitStream \<Rightarrow> StreamError + (nat list \<times> BitStream)" where
  "readBytes 0 s = Inr ([], s)"
| "readBytes (Suc n) s =
     (case readBits 8 s of
        Inl e \<Rightarrow> Inl e
      | Inr (byte, s') \<Rightarrow>
          (case readBytes n s' of
             Inl e \<Rightarrow> Inl e
           | Inr (rest, s'') \<Rightarrow> Inr (byte # rest, s'')))"

definition writeUTF8String :: "string \<Rightarrow> nat \<Rightarrow> BitStream \<Rightarrow> StreamError + BitStream" where
  "writeUTF8String str bytes s =
     writeBytes (map of_char (take bytes str) @ replicate (bytes - length str) 0) s"

definition readUTF8String :: "nat \<Rightarrow> BitStream \<Rightarrow> StreamError + (string \<times> BitStream)" where
  "readUTF8String bytes s =
     (case readBytes bytes s of
        Inl e \<Rightarrow> Inl e
      | Inr (codes, s') \<Rightarrow> Inr (map char_of (takeWhile (\<lambda>c. c \<noteq> 0) codes), s'))"

definition writePlayerName :: "string \<Rightarrow> BitStream \<Rightarrow> StreamError + BitStream" where
  "writePlayerName name s = writeUTF8String name PLAYER_NAME_MAX_LENGTH s"

definition readPlayerName :: "BitStream \<Rightarrow> StreamError + (string \<times> BitStream)" where
  "readPlayerName s = readUTF8String PLAYER_NAME_MAX_LENGTH s"

definition writePlayerNameWithColor ::
  "string \<Rightarrow> bool \<Rightarrow> string \<Rightarrow> BitStream \<Rightarrow> StreamError + BitStream" where
  "writePlayerNameWithColor name isDev color s =
     (case writePlayerName name s of
        Inl e \<Rightarrow> Inl e
      | Inr s1 \<Rightarrow>
          (case writeBoolean isDev s1 of
             Inl e \<Rightarrow> Inl e
           | Inr s2 \<Rightarrow> if isDev then writeUTF8String color 10 s2 else Inr s2))"

text \<open>
  \<open>readPlayerNameWithColor\<close> returns markup: a \<open>span\<close> element around the name, with a
  \<open>style\<close> attribute that sets the colour when the name is that of a developer. The
  quotation mark of the attribute is the character with the code 0x22.
\<close>

definition readPlayerNameWithColor :: "BitStream \<Rightarrow> StreamError + (string \<times> BitStream)" where
  "readPlayerNameWithColor s =
     (case readPlayerName s of
        Inl e \<Rightarrow> Inl e
      | Inr (playerName, s1) \<Rightarrow>
          (case readBoolean s1 of
             Inl e \<Rightarrow> Inl e
           | Inr (isDev, s2) \<Rightarrow>
               (case (if isDev
                      then (case readUTF8String 10 s2 of
                              Inl e \<Rightarrow> Inl e
                            | Inr (color, s3) \<Rightarrow>
                                Inr (''style='' @ [CHR 0x22] @ ''color: '' @ color @ [CHR 0x22], s3))
                      else Inr ('''', s2)) of
                  Inl e \<Rightarrow> Inl e
                | Inr (style, s3) \<Rightarrow>
                    Inr (''<span '' @ style @ ''>'' @ playerName @ ''</span>'', s3))))"

text \<open>
  For the proofs: \<open>written s bits s'\<close> says that \<open>s'\<close> is \<open>s\<close> after the bits have
  been stored at the write cursor, and \<open>utf8Bits\<close> are the bits that \<open>writeUTF8String\<close>
  stores.
\<close>

definition written :: "BitStream \<Rightarrow> bool list \<Rightarrow> BitStream \<Rightarrow> bool" where
  "written s bits s' \<longleftrightarrow>
     writeIndex s + length bits \<le> length (buffer s) \<and>
     buffer s' = take (writeIndex s) (buffer s) @ bits
                   @ drop (writeIndex s + length bits) (buffer s) \<and>
     writeIndex s' = writeIndex s + length bits \<and> readIndex s' = readIndex s"

definition utf8Bits :: "string \<Rightarrow> nat \<Rightarrow> bool list" where
  "utf8Bits str bytes =
     concat (map (\<lambda>b. map (bit (toInt32 (real b))) [0..<8])
               (map of_char (take bytes str) @ replicate (bytes - length str) 0))"

section \<open>World and object model\<close>

text \<open>
  Objects of the source are referred to by reference; the model names each object by an
  \<open>ObjectId\<close> and keeps the objects in a store, so that two references are the same
  object exactly when the identifiers are equal and an update through one reference is
  seen through every other.
\<close>

type_synonym ObjectId = nat

record CollisionFilter =
  player :: bool
  obstacle :: bool
  bullet :: bool
  loot :: bool

text \<open>
  The user data of a fixture: the two collision filters. The source's field \<open>is\<close> is
  written \<open>is'\<close>.
\<close>

record UserData =
  is' :: CollisionFilter
  collidesWith :: CollisionFilter

record GameObject = UserData +
  position :: Vector
  dead :: bool

record DeathMarker = GameObject +
  player' :: ObjectId
  isNew :: bool

record Player = GameObject +
  joined :: bool
  disconnected :: bool
  health :: real
  adrenaline :: real
  killedBy :: "ObjectId option"
  kills :: nat
  damageDone :: real
  damageTaken :: real
  movesSinceLastUpdate :: nat
  movement_up :: bool
  movement_down :: bool
  movement_left :: bool
  movement_right :: bool
  attacking :: bool
  dirty_health :: bool
  dirty_adrenaline :: bool
  dirty_zoom :: bool
  hitEffect :: bool
  visibleObjects :: "ObjectId set"
  nearObjects :: "ObjectId set option"
  partialDirtyObjects :: "ObjectId set"
  fullDirtyObjects :: "ObjectId set"
  deletedObjects :: "ObjectId set"
  zoom :: real
  xCullDist :: real
  yCullDist :: real
  invulnerable :: bool

datatype Entity = PlayerObject Player | DeathMarkerObject DeathMarker | OtherObject GameObject

datatype GasState = Inactive | Waiting | Advancing

text \<open>
  The gas. \<open>percentage\<close> is \<open>None\<close> when the source's value is not a finite number (a
  division by a zero duration).
\<close>

record Gas =
  stage :: nat
  state :: GasState
  initialDuration :: real
  countdownStart :: real
  percentage :: "real option"
  oldPosition :: Vector
  newPosition :: Vector
  oldRadius :: real
  newRadius :: real
  currentPosition :: Vector
  currentRadius :: real
  dps :: real
  ticksSinceLastDamage :: nat

text \<open>
  The game. The sets of the game that the tick iterates over are lists in insertion
  order, as a JavaScript \<open>Set\<close> iterates; the fields of the game that share a name
  with a field of the player carry the prefix \<open>game\<close>. \<open>nextRef\<close> is the next unused
  object reference, for objects created with \<open>new\<close>.
\<close>

record Game =
  objects :: "ObjectId \<rightharpoonup> Entity"
  nextRef :: ObjectId
  now :: real
  staticObjects :: "ObjectId list"
  dynamicObjects :: "ObjectId list"
  game_visibleObjects :: "real \<rightharpoonup> (int \<rightharpoonup> (int \<rightharpoonup> ObjectId set))"
  updateObjects :: bool
  aliveCountDirty :: bool
  game_partialDirtyObjects :: "ObjectId list"
  game_fullDirtyObjects :: "ObjectId list"
  game_deletedObjects :: "ObjectId list"
  livingPlayers :: "ObjectId list"
  connectedPlayers :: "ObjectId list"
  started :: bool
  over :: bool
  gas :: Gas
  gasDirty :: bool
  gasPercentageDirty :: bool

datatype GameError = InvalidZoomLevel real | TypeError | NotAPlayer

text \<open>\<open>Set.add\<close> and \<open>Set.delete\<close> on a set kept in insertion order.\<close>

definition setAdd :: "'a \<Rightarrow> 'a list \<Rightarrow> 'a list" where
  "setAdd a xs = (if a \<in> set xs then xs else xs @ [a])"

definition setDelete :: "'a \<Rightarrow> 'a list \<Rightarrow> 'a list" where
  "setDelete a xs = removeAll a xs"

definition entityPosition :: "Entity \<Rightarrow> Vector" where
  "entityPosition e =
     (case e of PlayerObject p \<Rightarrow> position p
              | DeathMarkerObject m \<Rightarrow> position m
              | OtherObject ob \<Rightarrow> position ob)"

definition objectPosition :: "Game \<Rightarrow> ObjectId \<Rightarrow> Vector option" where
  "objectPosition g object = map_option entityPosition (objects g object)"

text \<open>\<open>getPlayer g object\<close> is the player behind a reference, when
  \<open>object instanceof Player\<close> holds.\<close>

definition getPlayer :: "Game \<Rightarrow> ObjectId \<Rightarrow> Player option" where
  "getPlayer g object =
     (case objects g object of Some (PlayerObject p) \<Rightarrow> Some p | _ \<Rightarrow> None)"

definition updPlayer :: "ObjectId \<Rightarrow> (Player \<Rightarrow> Player) \<Rightarrow> Game \<Rightarrow> Game" where
  "updPlayer object f g =
     (case objects g object of
        Some (PlayerObject p) \<Rightarrow> g\<lparr>objects := (objects g)(object \<mapsto> PlayerObject (f p))\<rparr>
      | _ \<Rightarrow> g)"

definition mapWidth :: nat where
  "mapWidth = 720"

definition mapHeight :: nat where
  "mapHeight = 720"

subsection \<open>The player\<close>

text \<open>The setters of \<open>health\<close>, \<open>adrenaline\<close> and \<open>zoom\<close>.\<close>

definition setHealth :: "real \<Rightarrow> Player \<Rightarrow> Player" where
  "setHealth h p = p\<lparr>health := (if h > 100 then 100 else h), dirty_health := True\<rparr>"

definition setAdrenaline :: "real \<Rightarrow> Player \<Rightarrow> Player" where
  "setAdrenaline a p =
     (let a1 = (if a < 0 then 0 else a);
          a2 = (if a1 > 100 then 100 else a1)
      in p\<lparr>adrenaline := a2, dirty_adrenaline := True\<rparr>)"

definition setZoom :: "real \<Rightarrow> Player \<Rightarrow> Player" where
  "setZoom z p = p\<lparr>zoom := z, xCullDist := z * 1.5, yCullDist := z * 1.25, dirty_zoom := True\<rparr>"

subsection \<open>Collision filtering\<close>

definition shouldCollide :: "'a UserData_scheme \<Rightarrow> 'b UserData_scheme \<Rightarrow> bool" where
  "shouldCollide thisObject thatObject =
     (if player (is' thisObject) then player (collidesWith thatObject)
      else if obstacle (is' thisObject) then obstacle (collidesWith thatObject)
      else if bullet (is' thisObject) then bullet (collidesWith thatObject)
      else if loot (is' thisObject) then loot (collidesWith thatObject)
      else False)"

text \<open>The filters of the classes that are among the sources: the player, the death
  marker, and the user data of the world boundaries.\<close>

definition playerUserData :: UserData where
  "playerUserData =
     \<lparr>is' = \<lparr>player = True, obstacle = False, bullet = False, loot = False\<rparr>,
      collidesWith = \<lparr>player = False, obstacle = True, bullet = True, loot = False\<rparr>\<rparr>"

definition deathMarkerUserData :: UserData where
  "deathMarkerUserData =
     \<lparr>is' = \<lparr>player = False, obstacle = False, bullet = False, loot = False\<rparr>,
      collidesWith = \<lparr>player = False, obstacle = False, bullet = False, loot = False\<rparr>\<rparr>"

definition worldBoundaryUserData :: UserData where
  "worldBoundaryUserData =
     \<lparr>is' = \<lparr>player = False, obstacle = True, bullet = False, loot = False\<rparr>,
      collidesWith = \<lparr>player = True, obstacle = False, bullet = True, loot = True\<rparr>\<rparr>"

text \<open>
  Modelled from the spec: the filters of \<open>Obstacle\<close>, \<open>Bullet\<close> and \<open>Loot\<close>, whose
  classes are not among the sources. The spec's matrix (and the comment above
  \<open>shouldCollide\<close>) has bullets collide with players and obstacles but not with each
  other or with loot, and loot collide only with obstacles and other loot; an obstacle
  then collides with players, bullets and loot, as the world boundary does.
\<close>

definition obstacleUserData :: UserData where
  "obstacleUserData =
     \<lparr>is' = \<lparr>player = False, obstacle = True, bullet = False, loot = False\<rparr>,
      collidesWith = \<lparr>player = True, obstacle = False, bullet = True, loot = True\<rparr>\<rparr>"

definition bulletUserData :: UserData where
  "bulletUserData =
     \<lparr>is' = \<lparr>player = False, obstacle = False, bullet = True, loot = False\<rparr>,
      collidesWith = \<lparr>player = True, obstacle = True, bullet = False, loot = False\<rparr>\<rparr>"

definition lootUserData :: UserData where
  "lootUserData =
     \<lparr>is' = \<lparr>player = False, obstacle = False, bullet = False, loot = True\<rparr>,
      collidesWith = \<lparr>player = False, obstacle = True, bullet = False, loot = True\<rparr>\<rparr>"

text \<open>The field initialisers and the constructor of \<open>Player\<close>, for a player created
  at a position.\<close>

definition newPlayer :: "Vector \<Rightarrow> Player" where
  "newPlayer position' =
     setZoom 48
       \<lparr>is' = is' playerUserData, collidesWith = collidesWith playerUserData,
        position = position', dead = False,
        joined = False, disconnected = False, health = 100, adrenaline = 0,
        killedBy = None, kills = 0, damageDone = 0, damageTaken = 0,
        movesSinceLastUpdate = 0, movement_up = False, movement_down = False,
        movement_left = False, movement_right = False, attacking = False,
        dirty_health = True, dirty_adrenaline = True, dirty_zoom = True,
        hitEffect = False, visibleObjects = {}, nearObjects = Some {},
        partialDirtyObjects = {}, fullDirtyObjects = {}, deletedObjects = {},
        zoom = 48, xCullDist = 72, yCullDist = 60, invulnerable = True\<rparr>"

subsection \<open>Dirty-set projection of the tick\<close>

text \<open>
  The three loops of the second player pass of \<open>Game.tick\<close> that project the global
  dirty sets into the sets of one connected player \<open>this\<close>.
\<close>

definition tick_fullObjects :: "Game \<Rightarrow> Player \<Rightarrow> Player" where
  "tick_fullObjects g p =
     (if game_fullDirtyObjects g \<noteq> [] then
        fold (\<lambda>object q.
                if object \<in> visibleObjects q
                then q\<lparr>fullDirtyObjects := insert object (fullDirtyObjects q)\<rparr> else q)
             (game_fullDirtyObjects g) p
      else p)"

definition tick_partialObjects :: "Game \<Rightarrow> Player \<Rightarrow> Player" where
  "tick_partialObjects g p =
     (if game_partialDirtyObjects g \<noteq> [] then
        fold (\<lambda>object q.
                if object \<in> visibleObjects q \<and> object \<notin> fullDirtyObjects q
                then q\<lparr>partialDirtyObjects := insert object (partialDirtyObjects q)\<rparr> else q)
             (game_partialDirtyObjects g) p
      else p)"

definition tick_deletedObjects :: "Game \<Rightarrow> ObjectId \<Rightarrow> Player \<Rightarrow> Player" where
  "tick_deletedObjects g this p =
     (if game_deletedObjects g \<noteq> [] then
        fold (\<lambda>object q.
                if object \<in> visibleObjects q \<and> object \<noteq> this
                then q\<lparr>deletedObjects := insert object (deletedObjects q)\<rparr> else q)
             (game_deletedObjects g) p
      else p)"

definition tick_dirtyObjects :: "Game \<Rightarrow> ObjectId \<Rightarrow> Player \<Rightarrow> Player" where
  "tick_dirtyObjects g this p =
     tick_deletedObjects g this (tick_partialObjects g (tick_fullObjects g p))"

subsection \<open>Spatial visibility index\<close>

text \<open>The precomputation at the end of the constructor of \<open>Map\<close>: for each supported
  zoom level and each grid cell, the static objects inside the cull window of the cell.\<close>

definition supportedZoomLevels :: "real list" where
  "supportedZoomLevels = [48, 96]"

definition Map_cellVisibleObjects ::
  "Game \<Rightarrow> real \<Rightarrow> real \<Rightarrow> nat \<Rightarrow> nat \<Rightarrow> ObjectId set" where
  "Map_cellVisibleObjects g xCull yCull cx cy =
     (let minX = real (cx * 10) - xCull;
          minY = real (cy * 10) - yCull;
          maxX = real (cx * 10) + xCull;
          maxY = real (cy * 10) + yCull
      in fold (\<lambda>object visible.
                 case objectPosition g object of
                   None \<Rightarrow> visible
                 | Some pos \<Rightarrow>
                     if x pos > minX \<and> x pos < maxX \<and> y pos > minY \<and> y pos < maxY
                     then insert object visible else visible)
              (staticObjects g) {})"

definition Map_columnVisibleObjects ::
  "Game \<Rightarrow> real \<Rightarrow> real \<Rightarrow> nat \<Rightarrow> (int \<rightharpoonup> ObjectId set)" where
  "Map_columnVisibleObjects g xCull yCull cx =
     fold (\<lambda>cy column. column(int (cy * 10) \<mapsto> Map_cellVisibleObjects g xCull yCull cx cy))
          [0..<Suc (mapHeight div 10)] Map.empty"

definition Map_zoomVisibleObjects ::
  "Game \<Rightarrow> real \<Rightarrow> (int \<rightharpoonup> (int \<rightharpoonup> ObjectId set))" where
  "Map_zoomVisibleObjects g zoomLevel =
     (let xCull = zoomLevel * 1.75; yCull = zoomLevel * 1.35
      in fold (\<lambda>cx grid. grid(int (cx * 10) \<mapsto> Map_columnVisibleObjects g xCull yCull cx))
              [0..<Suc (mapWidth div 10)] Map.empty)"

definition Map_calculateVisibleObjects :: "Game \<Rightarrow> Game" where
  "Map_calculateVisibleObjects g =
     fold (\<lambda>zoomLevel g'.
             g'\<lparr>game_visibleObjects :=
                  (game_visibleObjects g')(zoomLevel \<mapsto> Map_zoomVisibleObjects g' zoomLevel)\<rparr>)
          supportedZoomLevels g"

text \<open>\<open>Math.round\<close>: the nearest integer, a half rounded up.\<close>

definition jsRound :: "real \<Rightarrow> int" where
  "jsRound r = \<lfloor>r + 1 / 2\<rfloor>"

text \<open>
  \<open>Game.getVisibleObjects\<close>. An unknown zoom level throws; a position outside the map
  gives the empty set; a missing row of the grid is a \<open>TypeError\<close> and a missing cell
  in a row is \<open>undefined\<close>, here \<open>None\<close>.
\<close>

definition getVisibleObjects ::
  "Game \<Rightarrow> Vector \<Rightarrow> real \<Rightarrow> GameError + ObjectId set option" where
  "getVisibleObjects g pos zoomLevel =
     (case game_visibleObjects g zoomLevel of
        None \<Rightarrow> Inl (InvalidZoomLevel zoomLevel)
      | Some atZoom \<Rightarrow>
          if x pos < 0 \<or> x pos > real mapWidth \<or> y pos < 0 \<or> y pos > real mapHeight
          then Inr (Some {})
          else (case atZoom (jsRound (x pos / 10) * 10) of
                  None \<Rightarrow> Inl TypeError
                | Some row \<Rightarrow> Inr (row (jsRound (y pos / 10) * 10))))"

text \<open>\<open>new Set(iterable)\<close>, where the iterable may be \<open>undefined\<close>.\<close>

definition newSet :: "'a set option \<Rightarrow> 'a set" where
  "newSet iterable = (case iterable of None \<Rightarrow> {} | Some elements \<Rightarrow> elements)"

text \<open>
  The body of the loop over the dynamic objects in \<open>Player.updateVisibleObjects\<close>. The
  state of the loop is the game, through which the sets of this player and of the other
  players are reached, and the new visible set under construction. A reference without
  an object cannot occur in the source and leaves the state as it is.
\<close>

definition updateVisibleObjects_step ::
  "ObjectId \<Rightarrow> real \<Rightarrow> real \<Rightarrow> real \<Rightarrow> real \<Rightarrow> ObjectId
     \<Rightarrow> Game \<times> ObjectId set \<Rightarrow> Game \<times> ObjectId set" where
  "updateVisibleObjects_step this minX minY maxX maxY object st =
     (let g = fst st; newVisibleObjects = snd st
      in case (getPlayer g this, objectPosition g object) of
           (Some p, Some pos) \<Rightarrow>
             if x pos > minX \<and> x pos < maxX \<and> y pos > minY \<and> y pos < maxY then
               let g1 = (if object \<notin> visibleObjects p
                         then updPlayer this
                                (\<lambda>q. q\<lparr>fullDirtyObjects := insert object (fullDirtyObjects q)\<rparr>) g
                         else g);
                   g2 = (case getPlayer g1 object of
                           None \<Rightarrow> g1
                         | Some other \<Rightarrow>
                             if \<not> dead p \<and> this \<notin> visibleObjects other
                             then updPlayer object
                                    (\<lambda>q. q\<lparr>visibleObjects := insert this (visibleObjects q),
                                           fullDirtyObjects := insert this (fullDirtyObjects q)\<rparr>) g1
                             else g1)
               in (g2, insert object newVisibleObjects)
             else if object \<in> visibleObjects p then
               (updPlayer this (\<lambda>q. q\<lparr>deletedObjects := insert object (deletedObjects q)\<rparr>) g,
                newVisibleObjects)
             else (g, newVisibleObjects)
         | _ \<Rightarrow> (g, newVisibleObjects))"

definition updateVisibleObjects :: "ObjectId \<Rightarrow> Game \<Rightarrow> GameError + Game" where
  "updateVisibleObjects this g =
     (case getPlayer g this of
        None \<Rightarrow> Inl NotAPlayer
      | Some p \<Rightarrow>
          let g0 = updPlayer this (\<lambda>q. q\<lparr>movesSinceLastUpdate := 0\<rparr>) g;
              approximateX = jsRound (x (position p) / 10) * 10;
              approximateY = jsRound (y (position p) / 10) * 10
          in case getVisibleObjects g0 (position p) 48 of
               Inl e \<Rightarrow> Inl e
             | Inr near \<Rightarrow>
                 let g1 = updPlayer this (\<lambda>q. q\<lparr>nearObjects := near\<rparr>) g0 in
                 case (case game_visibleObjects g1 (zoom p) of
                         None \<Rightarrow> Inr (newSet near)
                       | Some visibleAtZoom \<Rightarrow>
                           (case visibleAtZoom approximateX of
                              None \<Rightarrow> Inl TypeError
                            | Some row \<Rightarrow> Inr (newSet (row approximateY)))) of
                   Inl e \<Rightarrow> Inl e
                 | Inr initial \<Rightarrow>
                     let minX = x (position p) - xCullDist p;
                         minY = y (position p) - yCullDist p;
                         maxX = x (position p) + xCullDist p;
                         maxY = y (position p) + yCullDist p;
                         st = fold (updateVisibleObjects_step this minX minY maxX maxY)
                                   (dynamicObjects g1) (g1, initial);
                         g2 = fst st;
                         newVisibleObjects = snd st;
                         g3 = updPlayer this
                                (\<lambda>q. q\<lparr>fullDirtyObjects := fullDirtyObjects q \<union>
                                         {object \<in> newVisibleObjects. object \<notin> visibleObjects q}\<rparr>) g2;
                         g4 = updPlayer this
                                (\<lambda>q. q\<lparr>deletedObjects := deletedObjects q \<union>
                                         {object \<in> visibleObjects q. object \<notin> newVisibleObjects}\<rparr>) g3
                     in Inr (updPlayer this (\<lambda>q. q\<lparr>visibleObjects := newVisibleObjects\<rparr>) g4))"

text \<open>
  What the recomputation preserves, for the proofs: between two games the positions and
  the dynamic objects are the same, and every player is still there, as dead as before,
  with a visible set that has grown by at most the player \<open>this\<close>, and then only with
  \<open>this\<close> in its full set, and with full and deleted sets that have only grown.
\<close>

definition viewsGrow :: "ObjectId \<Rightarrow> Game \<Rightarrow> Game \<Rightarrow> bool" where
  "viewsGrow this g g' \<longleftrightarrow>
     objectPosition g' = objectPosition g \<and> dynamicObjects g' = dynamicObjects g \<and>
     (\<forall>j q. getPlayer g j = Some q \<longrightarrow>
        (\<exists>q'. getPlayer g' j = Some q' \<and> dead q' = dead q \<and>
           visibleObjects q \<subseteq> visibleObjects q' \<and>
           visibleObjects q' \<subseteq> insert this (visibleObjects q) \<and>
           (this \<in> visibleObjects q' \<longrightarrow> this \<in> visibleObjects q \<or> this \<in> fullDirtyObjects q') \<and>
           fullDirtyObjects q \<subseteq> fullDirtyObjects q' \<and>
           deletedObjects q \<subseteq> deletedObjects q'))"

subsection \<open>The player pass of the tick\<close>

text \<open>
  The body of the second loop over the players in \<open>Game.tick\<close>, for one connected
  player: a player that has not joined is skipped; the visible set is recomputed when
  the player has moved often enough or the objects of the game have changed; then the
  global dirty sets are projected into the sets of the player. The packets that the loop
  sends afterwards are built from these sets and are not modelled.
\<close>

definition tick_player :: "ObjectId \<Rightarrow> Game \<Rightarrow> GameError + Game" where
  "tick_player this g =
     (case getPlayer g this of
        None \<Rightarrow> Inl NotAPlayer
      | Some p \<Rightarrow>
          if \<not> joined p then Inr g
          else
            (case (if movesSinceLastUpdate p > 8 \<or> updateObjects g
                   then updateVisibleObjects this g else Inr g) of
               Inl e \<Rightarrow> Inl e
             | Inr g1 \<Rightarrow> Inr (updPlayer this (tick_dirtyObjects g1 this) g1)))"

subsection \<open>Damage\<close>

text \<open>
  \<open>Player.damage\<close>, in three parts: the amount, the decrease of the health, and the
  death sequence. The source of the damage counts when it is a player
  (\<open>source instanceof Player\<close>). Of the death sequence the model keeps the changes to
  the players and to the sets and flags of the game, and the death marker; it leaves out
  what the sources do not contain or what leaves the server: the packets sent, the
  physics body, the item identifier given back, and the loot dropped from the inventory.
\<close>

definition damage_death :: "ObjectId \<Rightarrow> ObjectId option \<Rightarrow> Game \<Rightarrow> Game" where
  "damage_death this sourcePlayer g =
     (let g1 = updPlayer this (\<lambda>q. (setHealth 0 q)\<lparr>dead := True\<rparr>) g;
          g2 = (case sourcePlayer of
                  None \<Rightarrow> g1
                | Some s \<Rightarrow>
                    let ga = updPlayer this (\<lambda>q. q\<lparr>killedBy := Some s\<rparr>) g1
                    in if s \<noteq> this then updPlayer s (\<lambda>q. q\<lparr>kills := kills q + 1\<rparr>) ga else ga);
          g3 = (updPlayer this
                  (\<lambda>q. setAdrenaline 0
                          (q\<lparr>movement_up := False, movement_down := False,
                             movement_left := False, movement_right := False,
                             attacking := False\<rparr>)) g2)
                 \<lparr>aliveCountDirty := True\<rparr>;
          g4 = g3\<lparr>livingPlayers := setDelete this (livingPlayers g3),
                  dynamicObjects := setDelete this (dynamicObjects g3),
                  updateObjects := True\<rparr>;
          markerPosition = (case objectPosition g4 this of None \<Rightarrow> v 0 0 | Some pos \<Rightarrow> pos);
          deathMarker = nextRef g4;
          g5 = g4\<lparr>objects := (objects g4)(deathMarker \<mapsto> DeathMarkerObject
                     \<lparr>is' = is' deathMarkerUserData,
                      collidesWith = collidesWith deathMarkerUserData,
                      position = markerPosition, dead = False,
                      player' = this, isNew = True\<rparr>),
                  nextRef := Suc (nextRef g4),
                  dynamicObjects := setAdd deathMarker (dynamicObjects g4),
                  game_fullDirtyObjects := setAdd deathMarker (game_fullDirtyObjects g4)\<rparr>
      in if started g5 then
           (if length (livingPlayers g5) = 1 then g5\<lparr>over := True\<rparr>
            else if length (livingPlayers g5) = 0 then g5\<lparr>over := True\<rparr>
            else g5)
         else g5)"

text \<open>The amount after the two clamps and the check for a dead player.\<close>

definition damage_amount :: "Player \<Rightarrow> real \<Rightarrow> real" where
  "damage_amount p amount0 =
     (let amount1 = (if health p - amount0 > 100 then - (100 - health p) else amount0);
          amount2 = (if health p - amount1 \<le> 0 then health p else amount1)
      in if dead p then 0 else amount2)"

text \<open>The decrease of the health and the updates of the counters and dirty sets.\<close>

definition damage_apply :: "ObjectId \<Rightarrow> real \<Rightarrow> ObjectId option \<Rightarrow> Game \<Rightarrow> Game" where
  "damage_apply this amount sourcePlayer g =
     (let g1 = updPlayer this (\<lambda>q. setHealth (health q - amount) q) g;
          g2 = (if amount > 0
                then updPlayer this
                       (\<lambda>q. q\<lparr>damageTaken := damageTaken q + amount,
                              hitEffect := (if sourcePlayer \<noteq> None then True
                                            else hitEffect q)\<rparr>) g1
                else g1);
          g3 = (case sourcePlayer of
                  None \<Rightarrow> g2
                | Some s \<Rightarrow>
                    if s \<noteq> this
                    then updPlayer s (\<lambda>q. q\<lparr>damageDone := damageDone q + amount\<rparr>) g2
                    else g2)
      in (updPlayer this
            (\<lambda>q. q\<lparr>partialDirtyObjects := insert this (partialDirtyObjects q)\<rparr>) g3)
           \<lparr>game_partialDirtyObjects := setAdd this (game_partialDirtyObjects g3)\<rparr>)"

definition damage :: "ObjectId \<Rightarrow> real \<Rightarrow> ObjectId option \<Rightarrow> Game \<Rightarrow> Game" where
  "damage this amount0 source g =
     (case getPlayer g this of
        None \<Rightarrow> g
      | Some p \<Rightarrow>
          if invulnerable p then g
          else
            let amount = damage_amount p amount0;
                sourcePlayer = (case source of
                                  None \<Rightarrow> None
                                | Some s \<Rightarrow> if getPlayer g s \<noteq> None then Some s else None);
                g4 = damage_apply this amount sourcePlayer g
            in case getPlayer g4 this of
                 None \<Rightarrow> g4
               | Some p4 \<Rightarrow>
                   if health p4 \<le> 0 \<and> \<not> dead p4 then damage_death this sourcePlayer g4
                   else g4)"

text \<open>The death markers of a player that are among the dynamic objects of the game, and
  a run of damage calls, each with its target, its amount and its source.\<close>

definition getDeathMarker :: "Game \<Rightarrow> ObjectId \<Rightarrow> DeathMarker option" where
  "getDeathMarker g object =
     (case objects g object of Some (DeathMarkerObject m) \<Rightarrow> Some m | _ \<Rightarrow> None)"

definition deathMarkersOf :: "Game \<Rightarrow> ObjectId \<Rightarrow> ObjectId list" where
  "deathMarkersOf g this =
     filter (\<lambda>object. map_option player' (getDeathMarker g object) = Some this)
            (dynamicObjects g)"

definition damageRun :: "(ObjectId \<times> real \<times> ObjectId option) list \<Rightarrow> Game \<Rightarrow> Game" where
  "damageRun calls g = fold (\<lambda>(target, amount, source) g'. damage target amount source g') calls g"

text \<open>
  References are handed out in order: every object of the store and every dynamic object
  has a reference below the next unused one.
\<close>

definition validRefs :: "Game \<Rightarrow> bool" where
  "validRefs g \<longleftrightarrow>
     dom (objects g) \<subseteq> {..<nextRef g} \<and> set (dynamicObjects g) \<subseteq> {..<nextRef g}"

text \<open>
  The spec's reading of the collision filter, for comparison with the code: some kind is
  set in the subject's \<open>is\<close> filter and in the other's \<open>collidesWith\<close> filter.
\<close>

definition specCollides :: "'a UserData_scheme \<Rightarrow> 'b UserData_scheme \<Rightarrow> bool" where
  "specCollides a b \<longleftrightarrow>
     player (is' a) \<and> player (collidesWith b) \<or>
     obstacle (is' a) \<and> obstacle (collidesWith b) \<or>
     bullet (is' a) \<and> bullet (collidesWith b) \<or>
     loot (is' a) \<and> loot (collidesWith b)"

text \<open>An object is of at most one kind, as every class of the sources is.\<close>

definition atMostOneKind :: "CollisionFilter \<Rightarrow> bool" where
  "atMostOneKind f \<longleftrightarrow>
     length (filter id [player f, obstacle f, bullet f, loot f]) \<le> 1"

section \<open>Gas\<close>

definition initialGas :: Gas where
  "initialGas = \<lparr>stage = 0, state = Inactive, initialDuration = 0, countdownStart = 0,
     percentage = Some 0, oldPosition = v 360 360, newPosition = v 360 360,
     oldRadius = 512, newRadius = 512, currentPosition = v 360 360,
     currentRadius = 512, dps = 0, ticksSinceLastDamage = 0\<rparr>"

text \<open>The field initialisers of the class \<open>Game\<close>: the game before the map is
  generated and before any player has joined.\<close>

definition newGame :: Game where
  "newGame = \<lparr>objects = Map.empty, nextRef = 0, now = 0, staticObjects = [],
     dynamicObjects = [], game_visibleObjects = Map.empty, updateObjects = False,
     aliveCountDirty = False, game_partialDirtyObjects = [], game_fullDirtyObjects = [],
     game_deletedObjects = [], livingPlayers = [], connectedPlayers = [],
     started = False, over = False, gas = initialGas, gasDirty = False,
     gasPercentageDirty = False\<rparr>"

definition isInGas :: "Game \<Rightarrow> Vector \<Rightarrow> bool" where
  "isInGas g position' \<longleftrightarrow>
     distanceSquared position' (currentPosition (gas g)) \<ge> (currentRadius (gas g))\<^sup>2"















section \<open>Properties of the gas predicate\<close>

text \<open>
  C9 (as the code has it): a position is in the gas exactly when its squared distance to the
  current gas centre is at least the squared current radius; a position on the
  circle itself is in the gas.
\<close>

theorem isInGas_iff_ge:
  "isInGas g p \<longleftrightarrow>
     (x p - x (currentPosition (gas g)))\<^sup>2 + (y p - y (currentPosition (gas g)))\<^sup>2
       \<ge> (currentRadius (gas g))\<^sup>2"
  by (simp add: isInGas_def distanceSquared_def)

text \<open>
  C9 (as stated, refuted): with the initial gas (centre (360, 360), radius 512) the position
  (872, 360) is at squared distance exactly 512 squared, which does not strictly exceed the
  squared radius, and yet it is in the gas.
\<close>

theorem isInGas_boundary_counterexample:
  "\<not> (isInGas newGame (v 872 360) \<longleftrightarrow>
        distanceSquared (v 872 360) (currentPosition (gas newGame))
          > (currentRadius (gas newGame))\<^sup>2)"
  by (simp add: isInGas_def distanceSquared_def newGame_def initialGas_def v_def)

section \<open>Properties of the bit stream codec\<close>

subsection \<open>Bits written and read\<close>

lemma bitsToNat_map_bit: "bitsToNat (map (bit (k::int)) [0..<n]) = nat (take_bit n k)"
proof (induction n arbitrary: k)
  case 0 show ?case by simp
next
  case (Suc n)
  have "map (bit k) [0..<Suc n] = odd k # map (bit (k div 2)) [0..<n]"
    by (simp add: upt_rec [of 0] map_Suc_upt [symmetric] bit_Suc bit_0 del: upt_Suc)
  moreover have "nat (take_bit (Suc n) k) = of_bool (odd k) + 2 * nat (take_bit n (k div 2))"
    by (simp add: take_bit_Suc nat_add_distrib nat_mult_distrib odd_iff_mod_2_eq_one)
  ultimately show ?case using Suc.IH [of "k div 2"]
    by (simp del: upt_Suc)
qed

lemma toInt32_small: "jsTrunc r = q \<Longrightarrow> - (2 ^ 31) \<le> q \<Longrightarrow> q < 2 ^ 31 \<Longrightarrow> toInt32 r = q"
  by (simp add: toInt32_def sint_sbintrunc' signed_take_bit_int_eq_self)

lemma shiftLeft1_small: "b \<le> 30 \<Longrightarrow> shiftLeft1 b = 2 ^ b"
proof -
  assume b: "b \<le> 30"
  have "(2::int) ^ b \<le> 2 ^ 30" using b by (intro power_increasing) auto
  then have lt: "(2::int) ^ b < 2 ^ 31" by simp
  have "push_bit b (1 :: 32 word) = word_of_int (2 ^ b)"
    by (simp add: push_bit_eq_mult)
  then have "shiftLeft1 b = sint (word_of_int (2 ^ b) :: 32 word)"
    using b by (simp add: shiftLeft1_def)
  also have "\<dots> = signed_take_bit 31 (2 ^ b)" by (simp only: sint_sbintrunc') simp
  also have "\<dots> = 2 ^ b"
    using lt by (intro signed_take_bit_int_eq_self) (auto intro: order_trans [of _ 0])
  finally show ?thesis .
qed

lemma writeBits_Inr:
  "writeBits val n s = Inr s' \<Longrightarrow>
     writeIndex s + n \<le> length (buffer s) \<and>
     buffer s' = take (writeIndex s) (buffer s) @ map (bit (toInt32 val)) [0..<n]
                   @ drop (writeIndex s + n) (buffer s) \<and>
     writeIndex s' = writeIndex s + n \<and> readIndex s' = readIndex s \<and>
     length (buffer s') = length (buffer s)"
  by (auto simp: writeBits_def split: if_splits)

lemma written_bits_here:
  "w + n \<le> length buf \<Longrightarrow> length bs = n \<Longrightarrow>
     take n (drop w (take w buf @ bs @ drop (w + n) buf)) = bs"
  by simp

lemma written_bits_frame:
  "r + m \<le> w \<Longrightarrow> w \<le> length buf \<Longrightarrow>
     take m (drop r (take w buf @ rest)) = take m (drop r buf)"
  by (simp add: take_drop min_def) 


lemma readBits_eq:
  "readIndex t + n \<le> length (buffer t) \<Longrightarrow>
   take n (drop (readIndex t) (buffer t)) = map (bit k) [0..<n] \<Longrightarrow>
   readBits n t = Inr (nat (take_bit n k), t\<lparr>readIndex := readIndex t + n\<rparr>)"
  by (simp add: readBits_def bitsToNat_map_bit)

lemma readBits_writeBits:
  assumes "writeBits val n s = Inr s'" and "readIndex s = writeIndex s"
  shows "readBits n s' = Inr (nat (take_bit n (toInt32 val)), s'\<lparr>readIndex := writeIndex s'\<rparr>)"
proof -
  note w = writeBits_Inr [OF assms(1)]
  have bits: "take n (drop (readIndex s') (buffer s')) = map (bit (toInt32 val)) [0..<n]"
    using w assms(2) by simp
  have len: "readIndex s' + n \<le> length (buffer s')" using w assms(2) by simp
  have "readBits n s' = Inr (nat (take_bit n (toInt32 val)), s'\<lparr>readIndex := readIndex s' + n\<rparr>)"
    by (rule readBits_eq [OF len bits])
  then show ?thesis using w assms(2) by simp
qed

lemma quantized_range:
  fixes t :: real
  assumes "0 \<le> t" "t \<le> 1" "1 \<le> b"
  shows "0 \<le> \<lfloor>t * (2 ^ b - 1) + 1 / 2\<rfloor>" and "\<lfloor>t * (2 ^ b - 1) + 1 / 2\<rfloor> \<le> 2 ^ b - 1"
proof -
  have R: "(1::real) \<le> 2 ^ b - 1" using assms(3) 
    by (metis add_le_imp_le_diff one_add_one one_le_numeral power_increasing power_one_right)
  have "0 \<le> t * (2 ^ b - 1) + 1 / 2" using assms R by simp
  then show "0 \<le> \<lfloor>t * (2 ^ b - 1) + 1 / 2\<rfloor>" by simp
  have "t * (2 ^ b - 1) \<le> 1 * (2 ^ b - 1)" using assms R by (intro mult_right_mono) auto
  then have "t * (2 ^ b - 1) + 1 / 2 < real_of_int (2 ^ b - 1) + 1" by simp
  then have "\<lfloor>t * (2 ^ b - 1) + 1 / 2\<rfloor> < (2 ^ b - 1) + 1" by (simp add: floor_less_iff)
  then show "\<lfloor>t * (2 ^ b - 1) + 1 / 2\<rfloor> \<le> 2 ^ b - 1" by simp
qed

lemma quantized_bits:
  fixes t :: real
  assumes "0 \<le> t" "t \<le> 1" "1 \<le> b" "b \<le> 30"
  shows "take_bit b (toInt32 (t * real_of_int (shiftLeft1 b - 1) + 0.5)) = \<lfloor>t * (2 ^ b - 1) + 1 / 2\<rfloor>"
proof -
  let ?q = "\<lfloor>t * (2 ^ b - 1) + 1 / 2\<rfloor>"
  note q = quantized_range [OF assms(1-3)]
  have pw: "(2::int) ^ b \<le> 2 ^ 30" using assms(4) by (intro power_increasing) auto
  have arg: "t * real_of_int (shiftLeft1 b - 1) + 0.5 = t * (2 ^ b - 1) + 1 / 2"
    using assms(4) by (simp add: shiftLeft1_small)
  have nonneg: "0 \<le> t * (2 ^ b - 1) + 1 / 2" using q(1) by linarith
  then have tr: "jsTrunc (t * (2 ^ b - 1) + 1 / 2) = ?q" by (simp add: jsTrunc_def)
  have lower: "- (2 ^ 31) \<le> ?q" using q(1) by simp
  have "(2::int) ^ b - 1 < 2 ^ 31" using pw by simp
  with q(2) have upper: "?q < 2 ^ 31" by (rule le_less_trans)
  have "toInt32 (t * (2 ^ b - 1) + 1 / 2) = ?q"
    by (rule toInt32_small [OF tr lower upper])
  moreover have "take_bit b ?q = ?q"
    using q by (intro take_bit_int_eq_self) auto
  ultimately show ?thesis by (simp only: arg)
qed


lemma specQuantize_range:
  assumes "lo \<le> hi" "1 \<le> b"
  shows "0 \<le> specQuantize val lo hi b" and "specQuantize val lo hi b \<le> 2 ^ b - 1"
proof -
  let ?t = "(max lo (min hi val) - lo) / (hi - lo)"
  have "0 \<le> ?t" using assms(1) by simp
  moreover have "?t \<le> 1" using assms(1) by (cases "hi = lo") (simp_all add: divide_le_eq_1)
  ultimately show "0 \<le> specQuantize val lo hi b" and "specQuantize val lo hi b \<le> 2 ^ b - 1"
    unfolding specQuantize_def using quantized_range [of ?t b] assms(2) by blast+
qed

lemma writeFloat_stores:
  assumes space: "writeIndex s + b \<le> length (buffer s)"
    and b: "1 \<le> b" "b \<le> 30" and lohi: "lo \<le> hi"
  shows "\<exists>s'. writeFloat val lo hi b s = Inr s' \<and>
           buffer s' = take (writeIndex s) (buffer s)
                         @ map (bit (specQuantize val lo hi b)) [0..<b]
                         @ drop (writeIndex s + b) (buffer s) \<and>
           writeIndex s' = writeIndex s + b \<and> readIndex s' = readIndex s"
proof -
  let ?c = "if val < hi then (if val > lo then val else lo) else hi"
  let ?t = "(?c - lo) / (hi - lo)"
  let ?w = "if hi = lo then 0 else ?t * real_of_int (shiftLeft1 b - 1) + 0.5"
  have c: "?c = max lo (min hi val)" using lohi by auto
  have t: "0 \<le> ?t" "?t \<le> 1" using lohi by (auto simp: divide_le_eq_1)
  have low: "take_bit b (toInt32 ?w) = specQuantize val lo hi b"
  proof (cases "hi = lo")
    case True
    then show ?thesis by (simp add: specQuantize_def toInt32_def jsTrunc_def)
  next
    case False
    then show ?thesis
      using quantized_bits [OF t b] by (simp only: c specQuantize_def if_False)
  qed
  have "map (bit (toInt32 ?w)) [0..<b] = map (bit (take_bit b (toInt32 ?w))) [0..<b]"
    by (simp add: bit_take_bit_iff)
  then have bits: "map (bit (toInt32 ?w)) [0..<b] = map (bit (specQuantize val lo hi b)) [0..<b]"
    by (simp only: low)
  have "writeFloat val lo hi b s = writeBits ?w b s"
    by (simp add: writeFloat_def Let_def)
  then show ?thesis using space bits by (simp add: writeBits_def)
qed

lemma readFloat_reads:
  assumes len: "readIndex t + b \<le> length (buffer t)"
    and bits: "take b (drop (readIndex t) (buffer t)) = map (bit q) [0..<b]"
    and q: "0 \<le> q" "q \<le> 2 ^ b - 1" and b: "1 \<le> b" "b \<le> 30"
  shows "readFloat lo hi b t = Inr (specDequantize q lo hi b, t\<lparr>readIndex := readIndex t + b\<rparr>)"
proof -
  have tb: "take_bit b q = q" using q by (intro take_bit_int_eq_self) auto
  have "(2::int) ^ 1 \<le> 2 ^ b" using b(1) by (intro power_increasing) auto
  then have R: "shiftLeft1 b - 1 \<noteq> 0" using b(2) by (simp add: shiftLeft1_small)
  have rb: "readBits b t = Inr (nat q, t\<lparr>readIndex := readIndex t + b\<rparr>)"
    using readBits_eq [OF len bits] by (simp only: tb)
  have "(2::real) ^ 1 \<le> 2 ^ b" using b(1) by (intro power_increasing) auto
  then have Rr: "(2::real) ^ b \<noteq> 1" by simp
  show ?thesis using R Rr rb q(1) b(2)
    by (simp add: readFloat_def Let_def specDequantize_def shiftLeft1_small)
qed

lemma dequantize_error:
  assumes "lo \<le> val" "val \<le> hi" "1 \<le> b"
  shows "\<bar>specDequantize (specQuantize val lo hi b) lo hi b - val\<bar> \<le> (hi - lo) / (2 ^ b - 1)"
proof (cases "hi = lo")
  case True
  then show ?thesis using assms by (simp add: specDequantize_def)
next
  case False
  then have d: "0 < hi - lo" using assms by simp
  define R :: real where "R = 2 ^ b - 1"
  have "(2::real) ^ 1 \<le> 2 ^ b" using assms(3) by (intro power_increasing) auto
  then have R: "1 \<le> R" by (simp add: R_def)
  define t where "t = (val - lo) / (hi - lo)"
  define q where "q = specQuantize val lo hi b"
  have cl: "max lo (min hi val) = val" using assms by simp
  have qdef: "q = \<lfloor>t * R + 1 / 2\<rfloor>" by (simp add: q_def specQuantize_def cl t_def R_def)
  have v: "val = lo + (hi - lo) * t" using d by (simp add: t_def)
  have e: "\<bar>real_of_int q - t * R\<bar> \<le> 1 / 2" unfolding qdef by linarith
  have "specDequantize q lo hi b = lo + (hi - lo) * (real_of_int q / R)"
    by (simp add: specDequantize_def R_def)
  then have "specDequantize q lo hi b - val = (hi - lo) * (real_of_int q / R) - (hi - lo) * t"
    using v by simp
  also have "\<dots> = (hi - lo) * ((real_of_int q - t * R) / R)"
    using R by (simp add: field_simps)
  finally have "specDequantize q lo hi b - val = (hi - lo) * ((real_of_int q - t * R) / R)" .
  then have "\<bar>specDequantize q lo hi b - val\<bar> = (hi - lo) * (\<bar>real_of_int q - t * R\<bar> / R)"
    using d R by (simp add: abs_mult)
  also have "\<dots> \<le> (hi - lo) * (1 / R)"
    using d R e by (intro mult_left_mono divide_right_mono) auto
  finally show ?thesis by (simp add: q_def R_def)
qed

subsection \<open>Quantised floats\<close>

text \<open>
  C2 (as the code has it): for a bit count from 1 to 30, bounds \<open>lo \<le> hi\<close> and a stream
  whose read cursor stands at the write cursor with room for the bits, \<open>writeFloat\<close>
  succeeds and stores the integer that the spec describes (the value clamped to the
  bounds, mapped linearly and rounded to nearest by adding one half before truncation);
  and when the value lies within the bounds, \<open>readFloat\<close> returns a number that
  differs from it by at most \<open>(hi - lo) / (2 ^ b - 1)\<close>.
\<close>

theorem writeFloat_readFloat_bound:
  assumes "1 \<le> b" and "b \<le> 30" and "lo \<le> hi" and "readIndex s = writeIndex s"
    and "writeIndex s + b \<le> length (buffer s)"
  shows "\<exists>s'. writeFloat val lo hi b s = Inr s' \<and>
           readBits b s' = Inr (nat (specQuantize val lo hi b), s'\<lparr>readIndex := writeIndex s'\<rparr>) \<and>
           (lo \<le> val \<and> val \<le> hi \<longrightarrow>
              (\<exists>r. readFloat lo hi b s' = Inr (r, s'\<lparr>readIndex := writeIndex s'\<rparr>) \<and>
                   \<bar>r - val\<bar> \<le> (hi - lo) / (2 ^ b - 1)))"
proof -
  obtain s' where w: "writeFloat val lo hi b s = Inr s'"
    and buf: "buffer s' = take (writeIndex s) (buffer s)
                         @ map (bit (specQuantize val lo hi b)) [0..<b]
                         @ drop (writeIndex s + b) (buffer s)"
    and wi: "writeIndex s' = writeIndex s + b" and ri: "readIndex s' = readIndex s"
    using writeFloat_stores [OF assms(5,1,2,3)] by blast
  note q = specQuantize_range [OF assms(3,1), of val]
  have len: "readIndex s' + b \<le> length (buffer s')" using assms(4,5) buf ri by simp
  have bits: "take b (drop (readIndex s') (buffer s')) = map (bit (specQuantize val lo hi b)) [0..<b]"
    using assms(4,5) buf ri by simp
  have tb: "take_bit b (specQuantize val lo hi b) = specQuantize val lo hi b"
    using q by (intro take_bit_int_eq_self) auto
  have rb: "readBits b s' = Inr (nat (specQuantize val lo hi b), s'\<lparr>readIndex := writeIndex s'\<rparr>)"
    using readBits_eq [OF len bits] assms(4) wi ri by (simp only: tb)
  have rf: "readFloat lo hi b s' = Inr (specDequantize (specQuantize val lo hi b) lo hi b, s'\<lparr>readIndex := writeIndex s'\<rparr>)"
    using readFloat_reads [OF len bits q assms(1,2)] assms(4) wi ri by simp
  show ?thesis using w rb rf dequantize_error [OF _ _ assms(1), of lo val hi] by auto
qed

theorem writeFloat_readFloat_bound_witness:
  "\<exists>s'. writeFloat 0.3 0 1 4 (alloc 1) = Inr s' \<and>
         readBits 4 s' = Inr (nat (specQuantize 0.3 0 1 4), s'\<lparr>readIndex := writeIndex s'\<rparr>) \<and>
         (\<exists>r. readFloat 0 1 4 s' = Inr (r, s'\<lparr>readIndex := writeIndex s'\<rparr>) \<and>
              \<bar>r - 0.3\<bar> \<le> (1 - 0) / (2 ^ 4 - 1))"
  using writeFloat_readFloat_bound [of 4 0 1 "alloc 1" "0.3"] by (simp add: alloc_def)

text \<open>
  C2 (as stated, refuted): the bound does not hold for every bit count from 1 on. With 31
  bits the source's \<open>1 << 31\<close> is negative, the value 1 between the bounds 0 and 1 is
  written as 31 zero bits and read back as 0.
\<close>

theorem writeFloat_bound_counterexample:
  "(case writeFloat 1 0 1 31 (alloc 4) of Inl e \<Rightarrow> False
      | Inr s \<Rightarrow> (case readFloat 0 1 31 s of Inl e \<Rightarrow> False
                    | Inr (r, s') \<Rightarrow> \<not> \<bar>r - 1\<bar> \<le> (1 - 0) / (2 ^ 31 - 1)))"
  by code_simp

subsection \<open>Typed helpers\<close>

lemma log2_10_bounds: "3 < log 2 10" "log 2 10 \<le> 4"
  by (subst less_log_iff, simp_all add: powr_numeral) (subst log_le_iff, simp_all add: powr_numeral)

lemma PACKET_TYPE_BITS_eq: "PACKET_TYPE_BITS = 4"
proof -
  have "\<lceil>log 2 10\<rceil> = 4" using log2_10_bounds by (intro ceiling_unique) auto
  then show ?thesis by (simp add: PACKET_TYPE_BITS_def calculateEnumPacketBits_def)
qed

lemma writeFloat_length:
  assumes "writeFloat val lo hi b s = Inr s'"
  shows "length (buffer s') = length (buffer s)"
proof -
  obtain w where "writeBits w b s = Inr s'"
    using assms by (auto simp: writeFloat_def Let_def split: if_splits)
  then show ?thesis by (simp add: writeBits_Inr)
qed

lemma readVector_writeVector2:
  assumes b: "1 \<le> b" "b \<le> 30" and lx: "loX \<le> hiX" and ly: "loY \<le> hiY"
    and idx: "readIndex s = writeIndex s"
    and space: "writeIndex s + 2 * b \<le> length (buffer s)"
  shows "\<exists>s'. writeVector2 vx vy loX loY hiX hiY b s = Inr s' \<and>
           writeIndex s' = writeIndex s + 2 * b \<and>
           readVector loX loY hiX hiY b s' =
             Inr (\<lparr>x = specDequantize (specQuantize vx loX hiX b) loX hiX b,
                   y = specDequantize (specQuantize vy loY hiY b) loY hiY b\<rparr>,
                  s'\<lparr>readIndex := writeIndex s'\<rparr>)"
proof -
  let ?w = "writeIndex s"
  let ?qx = "specQuantize vx loX hiX b" and ?qy = "specQuantize vy loY hiY b"
  have space1: "?w + b \<le> length (buffer s)" using space by simp
  obtain s1 where w1: "writeFloat vx loX hiX b s = Inr s1"
    and buf1: "buffer s1 = take ?w (buffer s) @ map (bit ?qx) [0..<b] @ drop (?w + b) (buffer s)"
    and wi1: "writeIndex s1 = ?w + b" and ri1: "readIndex s1 = readIndex s"
    using writeFloat_stores [OF space1 b lx] by blast
  have len1: "length (buffer s1) = length (buffer s)" by (rule writeFloat_length [OF w1])
  have space2: "writeIndex s1 + b \<le> length (buffer s1)" using space wi1 len1 by simp
  obtain s2 where w2: "writeFloat vy loY hiY b s1 = Inr s2"
    and buf2: "buffer s2 = take (writeIndex s1) (buffer s1) @ map (bit ?qy) [0..<b]
                 @ drop (writeIndex s1 + b) (buffer s1)"
    and wi2: "writeIndex s2 = writeIndex s1 + b" and ri2: "readIndex s2 = readIndex s1"
    using writeFloat_stores [OF space2 b ly] by blast
  have len2: "length (buffer s2) = length (buffer s)" using writeFloat_length [OF w2] len1 by simp
  have r2: "readIndex s2 = ?w" using ri2 ri1 idx by simp
  have bitsx1: "take b (drop ?w (buffer s1)) = map (bit ?qx) [0..<b]"
    using space1 by (simp add: buf1)
  have "take b (drop ?w (buffer s2)) = take b (drop ?w (buffer s1))"
    unfolding buf2 wi1 using space len1 by (intro written_bits_frame) auto
  then have bitsx: "take b (drop (readIndex s2) (buffer s2)) = map (bit ?qx) [0..<b]"
    using bitsx1 r2 by simp
  have lenx: "readIndex s2 + b \<le> length (buffer s2)" using r2 len2 space by simp
  note qx = specQuantize_range [OF lx b(1), of vx]
  note qy = specQuantize_range [OF ly b(1), of vy]
  let ?t = "s2\<lparr>readIndex := readIndex s2 + b\<rparr>"
  have rx: "readFloat loX hiX b s2 = Inr (specDequantize ?qx loX hiX b, ?t)"
    by (rule readFloat_reads [OF lenx bitsx qx b])
  have bitsy: "take b (drop (readIndex ?t) (buffer ?t)) = map (bit ?qy) [0..<b]"
    using space len1 by (simp add: buf2 wi1 r2)
  have leny: "readIndex ?t + b \<le> length (buffer ?t)" using r2 len2 space by simp
  have ry: "readFloat loY hiY b ?t = Inr (specDequantize ?qy loY hiY b, ?t\<lparr>readIndex := readIndex ?t + b\<rparr>)"
    by (rule readFloat_reads [OF leny bitsy qy b])
  have fin: "?t\<lparr>readIndex := readIndex ?t + b\<rparr> = s2\<lparr>readIndex := writeIndex s2\<rparr>"
    using r2 wi2 wi1 by simp
  have "writeVector2 vx vy loX loY hiX hiY b s = Inr s2"
    by (simp add: writeVector2_def w1 w2)
  moreover have "writeIndex s2 = ?w + 2 * b" using wi2 wi1 by simp
  moreover have "readVector loX loY hiX hiY b s2 =
      Inr (\<lparr>x = specDequantize ?qx loX hiX b, y = specDequantize ?qy loY hiY b\<rparr>,
           s2\<lparr>readIndex := writeIndex s2\<rparr>)"
    unfolding readVector_def rx using ry fin by simp
  ultimately show ?thesis by blast
qed

lemma readBits_writeBits_nat:
  assumes "k < 2 ^ n" and "n \<le> 31" and "readIndex s = writeIndex s"
    and "writeIndex s + n \<le> length (buffer s)"
  shows "\<exists>s'. writeBits (real k) n s = Inr s' \<and>
           readBits n s' = Inr (k, s'\<lparr>readIndex := writeIndex s'\<rparr>)"
proof -
  obtain s' where w: "writeBits (real k) n s = Inr s'"
    using assms(4) by (simp add: writeBits_def)
  have "(2::nat) ^ n \<le> 2 ^ 31" using assms(2) by (intro power_increasing) auto
  then have "int k < 2 ^ 31" using assms(1) by simp
  then have "toInt32 (real k) = int k"
    by (intro toInt32_small) (simp_all add: jsTrunc_def)
  moreover have "take_bit n (int k) = int k"
    using assms(1) by (intro take_bit_int_eq_self) (auto simp flip: of_nat_power)
  ultimately have "nat (take_bit n (toInt32 (real k))) = k" by simp
  then show ?thesis using readBits_writeBits [OF w assms(3)] w by simp
qed


lemma readPosition_writePosition:
  assumes "readIndex s = writeIndex s" and "writeIndex s + 32 \<le> length (buffer s)"
  shows "\<exists>s'. writePosition p s = Inr s' \<and>
           readPosition s' =
             Inr (\<lparr>x = specDequantize (specQuantize (x p) 0 1024 16) 0 1024 16,
                   y = specDequantize (specQuantize (720 - y p) 0 1024 16) 0 1024 16\<rparr>,
                  s'\<lparr>readIndex := writeIndex s'\<rparr>)"
  using readVector_writeVector2 [of 16 0 1024 0 1024 s "x p" "720 - y p"] assms
  by (auto simp: writePosition_def writePosition2_def readPosition_def)

lemma readObstacleRotation_full:
  assumes "readIndex s = writeIndex s" and "writeIndex s + 4 \<le> length (buffer s)"
  shows "\<exists>s'. writeObstacleRotation val ''full'' s = Inr s' \<and>
           readObstacleRotation ''full'' s' =
             Inr (specDequantize (specQuantize val (- pi) pi 4) (- pi) pi 4,
                  s'\<lparr>readIndex := writeIndex s'\<rparr>)"
proof -
  have lohi: "- pi \<le> pi" by simp
  obtain s' where w: "writeFloat val (- pi) pi 4 s = Inr s'"
    and buf: "buffer s' = take (writeIndex s) (buffer s)
                @ map (bit (specQuantize val (- pi) pi 4)) [0..<4]
                @ drop (writeIndex s + 4) (buffer s)"
    and wi: "writeIndex s' = writeIndex s + 4" and ri: "readIndex s' = readIndex s"
    using writeFloat_stores [OF assms(2) _ _ lohi, of val] by auto
  have len: "readIndex s' + 4 \<le> length (buffer s')" using assms buf ri by simp
  have bits: "take 4 (drop (readIndex s') (buffer s')) = map (bit (specQuantize val (- pi) pi 4)) [0..<4]"
    using assms buf ri by simp
  have q: "0 \<le> specQuantize val (- pi) pi 4" "specQuantize val (- pi) pi 4 \<le> 2 ^ 4 - 1"
    using specQuantize_range [OF lohi, of 4 val] by simp_all
  have "readFloat (- pi) pi 4 s' =
      Inr (specDequantize (specQuantize val (- pi) pi 4) (- pi) pi 4, s'\<lparr>readIndex := readIndex s' + 4\<rparr>)"
    by (rule readFloat_reads [OF len bits q]) simp_all
  then show ?thesis using w wi ri assms(1)
    by (simp add: writeObstacleRotation_def readObstacleRotation_def writeRotation_def readRotation_def)
qed

lemma written_length: "written s bits s' \<Longrightarrow> length (buffer s') = length (buffer s)"
  by (auto simp: written_def)

lemma written_trans:
  assumes "written s a s1" and "written s1 b s2"
  shows "written s (a @ b) s2"
proof -
  let ?w = "writeIndex s" and ?buf = "buffer s"
  have a: "?w + length a \<le> length ?buf"
    and b1: "buffer s1 = take ?w ?buf @ a @ drop (?w + length a) ?buf"
    and w1: "writeIndex s1 = ?w + length a" and r1: "readIndex s1 = readIndex s"
    using assms(1) by (auto simp: written_def)
  have len1: "length (buffer s1) = length ?buf" by (rule written_length [OF assms(1)])
  have b: "?w + (length a + length b) \<le> length ?buf"
    and b2: "buffer s2 = take (?w + length a) (buffer s1) @ b
               @ drop (?w + (length a + length b)) (buffer s1)"
    and w2: "writeIndex s2 = ?w + (length a + length b)" and r2: "readIndex s2 = readIndex s"
    using assms(2) w1 r1 len1 by (auto simp: written_def add.assoc)
  have t: "take (?w + length a) (buffer s1) = take ?w ?buf @ a"
    using a by (simp add: b1)
  have "drop (?w + (length a + length b)) (buffer s1)
          = drop (length a + length b) (drop ?w (buffer s1))"
    by (simp add: add.commute)
  also have "drop ?w (buffer s1) = a @ drop (?w + length a) ?buf"
    using a by (simp add: b1)
  also have "drop (length a + length b) (a @ drop (?w + length a) ?buf)
               = drop (length b) (drop (?w + length a) ?buf)"
    by simp
  also have "\<dots> = drop (?w + (length a + length b)) ?buf"
    by (simp add: add.commute add.left_commute)
  finally have d: "drop (?w + (length a + length b)) (buffer s1)
                     = drop (?w + (length a + length b)) ?buf" .
  have "buffer s2 = take ?w ?buf @ (a @ b) @ drop (?w + (length a + length b)) ?buf"
    by (simp only: b2 t d append_assoc)
  then show ?thesis using b w2 r2 by (simp add: written_def)
qed

lemma written_writeBits:
  assumes "writeIndex s + n \<le> length (buffer s)"
  shows "\<exists>s'. writeBits val n s = Inr s' \<and> written s (map (bit (toInt32 val)) [0..<n]) s'"
  using assms by (simp add: writeBits_def written_def)

lemma written_read:
  assumes "written s bits s'" and "readIndex s = writeIndex s"
  shows "drop (readIndex s') (buffer s') = bits @ drop (writeIndex s') (buffer s')"
proof -
  let ?w = "writeIndex s" and ?buf = "buffer s"
  have a: "?w + length bits \<le> length ?buf"
    and b1: "buffer s' = take ?w ?buf @ bits @ drop (?w + length bits) ?buf"
    and w1: "writeIndex s' = ?w + length bits" and r1: "readIndex s' = ?w"
    using assms by (auto simp: written_def)
  have "drop ?w (buffer s') = bits @ drop (?w + length bits) ?buf"
    using a by (simp add: b1)
  moreover have "drop (?w + length bits) (buffer s') = drop (?w + length bits) ?buf"
    using a by (simp add: b1)
  ultimately show ?thesis by (simp add: w1 r1)
qed

lemma readBits_prefix:
  assumes "drop (readIndex t) (buffer t) = map (bit k) [0..<n] @ rest"
    and "readIndex t \<le> length (buffer t)"
  shows "readBits n t = Inr (nat (take_bit n k), t\<lparr>readIndex := readIndex t + n\<rparr>)"
    and "drop (readIndex t + n) (buffer t) = rest"
    and "readIndex t + n \<le> length (buffer t)"
proof -
  have "length (drop (readIndex t) (buffer t)) = n + length rest"
    by (simp only: assms(1)) simp
  then show len: "readIndex t + n \<le> length (buffer t)" using assms(2) by simp
  have bits: "take n (drop (readIndex t) (buffer t)) = map (bit k) [0..<n]"
    by (simp only: assms(1)) simp
  show "readBits n t = Inr (nat (take_bit n k), t\<lparr>readIndex := readIndex t + n\<rparr>)"
    by (rule readBits_eq [OF len bits])
  have "drop (readIndex t + n) (buffer t) = drop n (drop (readIndex t) (buffer t))"
    by (simp add: add.commute)
  also have "\<dots> = rest" by (simp only: assms(1)) simp
  finally show "drop (readIndex t + n) (buffer t) = rest" .
qed

lemma toInt32_nat: "k < 2 ^ n \<Longrightarrow> n \<le> 31 \<Longrightarrow> take_bit n (toInt32 (real k)) = int k"
proof -
  assume k: "k < 2 ^ n" and n: "n \<le> 31"
  have "(2::nat) ^ n \<le> 2 ^ 31" using n by (intro power_increasing) auto
  then have "int k < 2 ^ 31" using k by simp
  then have "toInt32 (real k) = int k"
    by (intro toInt32_small) (simp_all add: jsTrunc_def)
  moreover have "take_bit n (int k) = int k"
    using k by (intro take_bit_int_eq_self) (auto simp flip: of_nat_power)
  ultimately show ?thesis by simp
qed

lemma readBits_prefix_nat:
  assumes "drop (readIndex t) (buffer t) = map (bit (toInt32 (real k))) [0..<n] @ rest"
    and "readIndex t \<le> length (buffer t)" and "k < 2 ^ n" and "n \<le> 31"
  shows "readBits n t = Inr (k, t\<lparr>readIndex := readIndex t + n\<rparr>)"
  using readBits_prefix(1) [OF assms(1,2)] toInt32_nat [OF assms(3,4)] by simp

lemma written_writeBytes:
  "writeIndex s + 8 * length bs \<le> length (buffer s) \<Longrightarrow>
     \<exists>s'. writeBytes bs s = Inr s' \<and>
          written s (concat (map (\<lambda>b. map (bit (toInt32 (real b))) [0..<8]) bs)) s'"
proof (induction bs arbitrary: s)
  case Nil
  then show ?case by (simp add: written_def)
next
  case (Cons b bs)
  have "writeIndex s + 8 \<le> length (buffer s)" using Cons.prems by simp
  then obtain s1 where w1: "writeBits (real b) 8 s = Inr s1"
    and wr1: "written s (map (bit (toInt32 (real b))) [0..<8]) s1"
    using written_writeBits [of s 8 "real b"] by blast
  have "writeIndex s1 + 8 * length bs \<le> length (buffer s1)"
    using Cons.prems wr1 written_length [OF wr1] by (simp add: written_def)
  from Cons.IH [OF this] obtain s2 where w2: "writeBytes bs s1 = Inr s2"
    and wr2: "written s1 (concat (map (\<lambda>b. map (bit (toInt32 (real b))) [0..<8]) bs)) s2"
    by blast
  have "written s (map (bit (toInt32 (real b))) [0..<8]
          @ concat (map (\<lambda>b. map (bit (toInt32 (real b))) [0..<8]) bs)) s2"
    by (rule written_trans [OF wr1 wr2])
  then show ?case using w1 w2 by simp
qed

lemma readBytes_prefix:
  "drop (readIndex t) (buffer t)
      = concat (map (\<lambda>b. map (bit (toInt32 (real b))) [0..<8]) bs) @ rest \<Longrightarrow>
   readIndex t \<le> length (buffer t) \<Longrightarrow>
   \<forall>b \<in> set bs. b < 256 \<Longrightarrow>
   readBytes (length bs) t = Inr (bs, t\<lparr>readIndex := readIndex t + 8 * length bs\<rparr>) \<and>
   drop (readIndex t + 8 * length bs) (buffer t) = rest \<and>
   readIndex t + 8 * length bs \<le> length (buffer t)"
proof (induction bs arbitrary: t)
  case Nil
  then show ?case by simp
next
  case (Cons b bs)
  let ?rest = "concat (map (\<lambda>b. map (bit (toInt32 (real b))) [0..<8]) bs) @ rest"
  have d: "drop (readIndex t) (buffer t) = map (bit (toInt32 (real b))) [0..<8] @ ?rest"
    using Cons.prems(1) by simp
  have b: "b < 2 ^ 8" using Cons.prems(3) by simp
  let ?t = "t\<lparr>readIndex := readIndex t + 8\<rparr>"
  have r1: "readBits 8 t = Inr (b, ?t)"
    by (rule readBits_prefix_nat [OF d Cons.prems(2) b]) simp
  have d1: "drop (readIndex ?t) (buffer ?t) = ?rest"
    using readBits_prefix(2) [OF d Cons.prems(2)] by simp
  have l1: "readIndex ?t \<le> length (buffer ?t)"
    using readBits_prefix(3) [OF d Cons.prems(2)] by simp
  have "\<forall>b \<in> set bs. b < 256" using Cons.prems(3) by simp
  from Cons.IH [OF d1 l1 this]
  have "readBytes (length bs) ?t = Inr (bs, ?t\<lparr>readIndex := readIndex ?t + 8 * length bs\<rparr>)"
    and "drop (readIndex ?t + 8 * length bs) (buffer ?t) = rest"
    and "readIndex ?t + 8 * length bs \<le> length (buffer ?t)"
    by simp_all
  then show ?case using r1 by (simp add: add.assoc)
qed

lemma log2_5_bounds: "2 < log 2 5" "log 2 5 \<le> 3"
  by (subst less_log_iff, simp_all add: powr_numeral) (subst log_le_iff, simp_all add: powr_numeral)

lemma OBJECT_CATEGORY_BITS_eq: "OBJECT_CATEGORY_BITS = 3"
proof -
  have "\<lceil>log 2 5\<rceil> = 3" using log2_5_bounds by (intro ceiling_unique) auto
  then show ?thesis by (simp add: OBJECT_CATEGORY_BITS_def calculateEnumPacketBits_def)
qed

lemma readFloat_writeFloat:
  assumes b: "1 \<le> b" "b \<le> 30" and lohi: "lo \<le> hi" and idx: "readIndex s = writeIndex s"
    and space: "writeIndex s + b \<le> length (buffer s)"
  shows "\<exists>s'. writeFloat val lo hi b s = Inr s' \<and>
           readFloat lo hi b s' =
             Inr (specDequantize (specQuantize val lo hi b) lo hi b,
                  s'\<lparr>readIndex := writeIndex s'\<rparr>)"
proof -
  obtain s' where w: "writeFloat val lo hi b s = Inr s'"
    and buf: "buffer s' = take (writeIndex s) (buffer s)
                         @ map (bit (specQuantize val lo hi b)) [0..<b]
                         @ drop (writeIndex s + b) (buffer s)"
    and wi: "writeIndex s' = writeIndex s + b" and ri: "readIndex s' = readIndex s"
    using writeFloat_stores [OF space b lohi] by blast
  note q = specQuantize_range [OF lohi b(1), of val]
  have len: "readIndex s' + b \<le> length (buffer s')" using idx space buf ri by simp
  have bits: "take b (drop (readIndex s') (buffer s')) = map (bit (specQuantize val lo hi b)) [0..<b]"
    using idx space buf ri by simp
  have "readFloat lo hi b s' = Inr (specDequantize (specQuantize val lo hi b) lo hi b, s'\<lparr>readIndex := writeIndex s'\<rparr>)"
    using readFloat_reads [OF len bits q b] idx wi ri by simp
  then show ?thesis using w by blast
qed

lemma readObjectTypeNoCategory_writeObjectTypeNoCategory:
  assumes idx: "readIndex s = writeIndex s"
    and defs: "ObjectDefinitionsList (category type) = Some definitions"
    and n: "bitCount' definitions \<le> 31"
    and i: "0 \<le> idNumber type" "idNumber type < 2 ^ bitCount' definitions"
    and space: "writeIndex s + bitCount' definitions \<le> length (buffer s)"
  shows "\<exists>s'. writeObjectTypeNoCategory ObjectDefinitionsList type s = Inr s' \<and>
           readObjectTypeNoCategory ObjectDefinitionsList (category type) s' =
             Inr (type, s'\<lparr>readIndex := writeIndex s'\<rparr>)"
proof -
  have k: "nat (idNumber type) < 2 ^ bitCount' definitions"
    using i by (simp add: nat_less_iff)
  obtain s' where w: "writeBits (real (nat (idNumber type))) (bitCount' definitions) s = Inr s'"
    and r: "readBits (bitCount' definitions) s' =
              Inr (nat (idNumber type), s'\<lparr>readIndex := writeIndex s'\<rparr>)"
    using readBits_writeBits_nat [OF k n idx space] by blast
  have v: "real (nat (idNumber type)) = real_of_int (idNumber type)" using i(1) by simp
  have t: "fromNumber (category type) (nat (idNumber type)) = type"
    using i(1) by (simp add: fromNumber_def)
  show ?thesis using w r
    by (simp add: writeObjectTypeNoCategory_def readObjectTypeNoCategory_def defs v t)
qed

lemma readObjectType_writeObjectType:
  assumes idx: "readIndex s = writeIndex s"
    and c: "category type < 2 ^ 3"
    and defs: "ObjectDefinitionsList (category type) = Some definitions"
    and n: "bitCount' definitions \<le> 31"
    and i: "0 \<le> idNumber type" "idNumber type < 2 ^ bitCount' definitions"
    and space: "writeIndex s + 3 + bitCount' definitions \<le> length (buffer s)"
  shows "\<exists>s'. writeObjectType ObjectDefinitionsList type s = Inr s' \<and>
           readObjectType ObjectDefinitionsList s' =
             Inr (type, s'\<lparr>readIndex := writeIndex s'\<rparr>)"
proof -
  let ?c = "category type" and ?i = "nat (idNumber type)" and ?n = "bitCount' definitions"
  let ?cb = "map (bit (toInt32 (real ?c))) [0..<3]"
  let ?ib = "map (bit (toInt32 (real ?i))) [0..<?n]"
  have k: "?i < 2 ^ ?n" using i by (simp add: nat_less_iff)
  have v: "real ?i = real_of_int (idNumber type)" using i(1) by simp
  have t: "fromNumber ?c ?i = type" using i(1) by (simp add: fromNumber_def)
  have "writeIndex s + 3 \<le> length (buffer s)" using space by simp
  then obtain s1 where w1: "writeBits (real ?c) 3 s = Inr s1" and wr1: "written s ?cb s1"
    using written_writeBits [of s 3 "real ?c"] by blast
  have "writeIndex s1 + ?n \<le> length (buffer s1)"
    using space wr1 written_length [OF wr1] by (simp add: written_def)
  then obtain s2 where w2: "writeBits (real ?i) ?n s1 = Inr s2" and wr2: "written s1 ?ib s2"
    using written_writeBits [of s1 ?n "real ?i"] by blast
  have wr: "written s (?cb @ ?ib) s2" by (rule written_trans [OF wr1 wr2])
  have d: "drop (readIndex s2) (buffer s2) = ?cb @ ?ib @ drop (writeIndex s2) (buffer s2)"
    using written_read [OF wr idx] by simp
  have l: "readIndex s2 \<le> length (buffer s2)"
    using wr idx written_length [OF wr] by (simp add: written_def)
  let ?t = "s2\<lparr>readIndex := readIndex s2 + 3\<rparr>"
  have r1: "readBits 3 s2 = Inr (?c, ?t)"
    by (rule readBits_prefix_nat [OF d l c]) simp
  have d1: "drop (readIndex ?t) (buffer ?t) = ?ib @ drop (writeIndex s2) (buffer s2)"
    using readBits_prefix(2) [OF d l] by simp
  have l1: "readIndex ?t \<le> length (buffer ?t)"
    using readBits_prefix(3) [OF d l] by simp
  have r2: "readBits ?n ?t = Inr (?i, ?t\<lparr>readIndex := readIndex ?t + ?n\<rparr>)"
    by (rule readBits_prefix_nat [OF d1 l1 k n])
  have fin: "?t\<lparr>readIndex := readIndex ?t + ?n\<rparr> = s2\<lparr>readIndex := writeIndex s2\<rparr>"
    using wr idx by (simp add: written_def)
  have "writeObjectType ObjectDefinitionsList type s = Inr s2"
    using w1 w2
    by (simp add: writeObjectType_def writeObjectTypeNoCategory_def OBJECT_CATEGORY_BITS_eq defs v)
  moreover have "readObjectType ObjectDefinitionsList s2 = Inr (type, s2\<lparr>readIndex := writeIndex s2\<rparr>)"
    using r1 r2 fin
    by (simp add: readObjectType_def readObjectTypeNoCategory_def OBJECT_CATEGORY_BITS_eq defs t)
  ultimately show ?thesis by blast
qed

lemma readObjectType_writeObjectType_categoryOnly:
  assumes idx: "readIndex s = writeIndex s"
    and c: "category type < 2 ^ 3"
    and defs: "ObjectDefinitionsList (category type) = None"
    and space: "writeIndex s + 3 \<le> length (buffer s)"
  shows "\<exists>s'. writeObjectType ObjectDefinitionsList type s = Inr s' \<and>
           readObjectType ObjectDefinitionsList s' =
             Inr (categoryOnly (category type), s'\<lparr>readIndex := writeIndex s'\<rparr>)"
proof -
  obtain s' where w: "writeBits (real (category type)) 3 s = Inr s'"
    and r: "readBits 3 s' = Inr (category type, s'\<lparr>readIndex := writeIndex s'\<rparr>)"
    using readBits_writeBits_nat [OF c _ idx space] by auto
  show ?thesis using w r
    by (simp add: writeObjectType_def writeObjectTypeNoCategory_def readObjectType_def
        readObjectTypeNoCategory_def OBJECT_CATEGORY_BITS_eq defs)
qed

lemma of_char_eq_0: "(of_char c = (0::nat)) = (c = CHR 0x00)"
proof -
  have "of_char (CHR 0x00) = (0::nat)" by simp
  then show ?thesis using of_char_eq_iff [of c "CHR 0x00", where ?'a = nat] by simp
qed

lemma cut_padded:
  "map char_of (takeWhile (\<lambda>c. c \<noteq> (0::nat)) (map of_char xs @ replicate n 0))
     = takeWhile (\<lambda>c. c \<noteq> CHR 0x00) xs"
  by (induction xs) (simp_all add: takeWhile_replicate of_char_eq_0)

lemma utf8Bits_length: "length (utf8Bits str bytes) = 8 * bytes"
proof -
  have L: "length (concat (map (\<lambda>b. map (bit (toInt32 (real b))) [0..<8]) bs)) = 8 * length bs"
    for bs :: "nat list"
    by (induction bs) simp_all
  have "length (utf8Bits str bytes)
          = 8 * length (map of_char (take bytes str) @ replicate (bytes - length str) (0::nat))"
    unfolding utf8Bits_def by (rule L)
  then show ?thesis by simp
qed

lemma written_writeUTF8String:
  assumes "writeIndex s + 8 * bytes \<le> length (buffer s)"
  shows "\<exists>s'. writeUTF8String str bytes s = Inr s' \<and> written s (utf8Bits str bytes) s'"
proof -
  let ?P = "map of_char (take bytes str) @ replicate (bytes - length str) (0::nat)"
  have "length ?P = bytes" by simp
  then have "writeIndex s + 8 * length ?P \<le> length (buffer s)" using assms by simp
  from written_writeBytes [OF this] show ?thesis
    by (simp add: writeUTF8String_def utf8Bits_def)
qed

lemma readUTF8String_prefix:
  assumes "drop (readIndex t) (buffer t) = utf8Bits str bytes @ rest"
    and "readIndex t \<le> length (buffer t)"
  shows "readUTF8String bytes t =
           Inr (takeWhile (\<lambda>c. c \<noteq> CHR 0x00) (take bytes str),
                t\<lparr>readIndex := readIndex t + 8 * bytes\<rparr>)"
    and "drop (readIndex t + 8 * bytes) (buffer t) = rest"
    and "readIndex t + 8 * bytes \<le> length (buffer t)"
proof -
  let ?P = "map of_char (take bytes str) @ replicate (bytes - length str) (0::nat)"
  have len: "length ?P = bytes" by simp
  have small: "\<forall>b \<in> set ?P. b < 256" by (auto simp: nat_of_char_less_256)
  have d: "drop (readIndex t) (buffer t)
             = concat (map (\<lambda>b. map (bit (toInt32 (real b))) [0..<8]) ?P) @ rest"
    using assms(1) by (simp add: utf8Bits_def)
  from readBytes_prefix [OF d assms(2) small]
  have r: "readBytes bytes t = Inr (?P, t\<lparr>readIndex := readIndex t + 8 * bytes\<rparr>)"
    and "drop (readIndex t + 8 * bytes) (buffer t) = rest"
    and "readIndex t + 8 * bytes \<le> length (buffer t)"
    by (simp_all only: len)
  then show "drop (readIndex t + 8 * bytes) (buffer t) = rest"
    and "readIndex t + 8 * bytes \<le> length (buffer t)" by blast+
  show "readUTF8String bytes t =
           Inr (takeWhile (\<lambda>c. c \<noteq> CHR 0x00) (take bytes str),
                t\<lparr>readIndex := readIndex t + 8 * bytes\<rparr>)"
    unfolding readUTF8String_def r by (simp only: sum.case prod.case cut_padded)
qed

lemma readPlayerName_writePlayerName:
  assumes idx: "readIndex s = writeIndex s"
    and space: "writeIndex s + 128 \<le> length (buffer s)"
  shows "\<exists>s'. writePlayerName name s = Inr s' \<and>
           readPlayerName s' =
             Inr (takeWhile (\<lambda>c. c \<noteq> CHR 0x00) (take 16 name),
                  s'\<lparr>readIndex := writeIndex s'\<rparr>)"
proof -
  have "writeIndex s + 8 * 16 \<le> length (buffer s)" using space by simp
  then obtain s' where w: "writeUTF8String name 16 s = Inr s'"
    and wr: "written s (utf8Bits name 16) s'"
    using written_writeUTF8String by blast
  have d: "drop (readIndex s') (buffer s') = utf8Bits name 16 @ drop (writeIndex s') (buffer s')"
    by (rule written_read [OF wr idx])
  have l: "readIndex s' \<le> length (buffer s')"
    using wr idx written_length [OF wr] by (simp add: written_def)
  have "readIndex s' + 8 * 16 = writeIndex s'"
    using wr idx by (simp add: written_def utf8Bits_length)
  then show ?thesis using w readUTF8String_prefix(1) [OF d l]
    by (simp add: writePlayerName_def readPlayerName_def PLAYER_NAME_MAX_LENGTH_def)
qed

lemma written_writeBoolean:
  assumes "writeIndex s + 1 \<le> length (buffer s)"
  shows "\<exists>s'. writeBoolean b s = Inr s' \<and>
           written s (map (bit (toInt32 (real (if b then 1 else 0 :: nat)))) [0..<1]) s'"
proof -
  have "(if b then 1 else 0 :: real) = real (if b then 1 else 0 :: nat)" by simp
  then show ?thesis using written_writeBits [OF assms, of "real (if b then 1 else 0 :: nat)"]
    by (simp only: writeBoolean_def)
qed

lemma readBoolean_prefix:
  assumes "drop (readIndex t) (buffer t)
             = map (bit (toInt32 (real (if b then 1 else 0 :: nat)))) [0..<1] @ rest"
    and "readIndex t \<le> length (buffer t)"
  shows "readBoolean t = Inr (b, t\<lparr>readIndex := readIndex t + 1\<rparr>)"
proof -
  have "readBits 1 t = Inr (if b then 1 else 0, t\<lparr>readIndex := readIndex t + 1\<rparr>)"
    by (rule readBits_prefix_nat [OF assms]) simp_all
  then show ?thesis by (simp add: readBoolean_def)
qed

lemma readPlayerNameWithColor_writePlayerNameWithColor:
  assumes idx: "readIndex s = writeIndex s"
    and space: "writeIndex s + (if isDev then 209 else 129) \<le> length (buffer s)"
  shows "\<exists>s'. writePlayerNameWithColor name isDev color s = Inr s' \<and>
           readPlayerNameWithColor s' =
             Inr (''<span ''
                    @ (if isDev
                       then ''style='' @ [CHR 0x22] @ ''color: ''
                              @ takeWhile (\<lambda>c. c \<noteq> CHR 0x00) (take 10 color) @ [CHR 0x22]
                       else '''')
                    @ ''>'' @ takeWhile (\<lambda>c. c \<noteq> CHR 0x00) (take 16 name) @ ''</span>'',
                  s'\<lparr>readIndex := writeIndex s'\<rparr>)"
proof -
  let ?bb = "map (bit (toInt32 (real (if isDev then 1 else 0 :: nat)))) [0..<1]"
  let ?name = "takeWhile (\<lambda>c. c \<noteq> CHR 0x00) (take 16 name)"
  have "writeIndex s + 8 * 16 \<le> length (buffer s)" using space by (simp split: if_splits)
  then obtain s1 where w1: "writeUTF8String name 16 s = Inr s1"
    and wr1: "written s (utf8Bits name 16) s1"
    using written_writeUTF8String by blast
  have wi1: "writeIndex s1 = writeIndex s + 128" and len1: "length (buffer s1) = length (buffer s)"
    using wr1 written_length [OF wr1] by (simp_all add: written_def utf8Bits_length)
  have "writeIndex s1 + 1 \<le> length (buffer s1)"
    using space wi1 len1 by (simp split: if_splits)
  then obtain s2 where w2: "writeBoolean isDev s1 = Inr s2" and wr2: "written s1 ?bb s2"
    using written_writeBoolean by blast
  have wi2: "writeIndex s2 = writeIndex s + 129" and len2: "length (buffer s2) = length (buffer s)"
    using wr2 written_length [OF wr2] wi1 len1 by (simp_all add: written_def)
  have wr12: "written s (utf8Bits name 16 @ ?bb) s2" by (rule written_trans [OF wr1 wr2])
  show ?thesis
  proof (cases isDev)
    case False
    have d: "drop (readIndex s2) (buffer s2)
               = utf8Bits name 16 @ ?bb @ drop (writeIndex s2) (buffer s2)"
      using written_read [OF wr12 idx] by simp
    have l: "readIndex s2 \<le> length (buffer s2)"
      using wr12 idx len2 by (simp add: written_def)
    let ?t1 = "s2\<lparr>readIndex := readIndex s2 + 8 * 16\<rparr>"
    have r1: "readUTF8String 16 s2 = Inr (?name, ?t1)"
      by (rule readUTF8String_prefix(1) [OF d l])
    have d1: "drop (readIndex ?t1) (buffer ?t1) = ?bb @ drop (writeIndex s2) (buffer s2)"
      using readUTF8String_prefix(2) [OF d l] by simp
    have l1: "readIndex ?t1 \<le> length (buffer ?t1)"
      using readUTF8String_prefix(3) [OF d l] by simp
    have r2: "readBoolean ?t1 = Inr (isDev, ?t1\<lparr>readIndex := readIndex ?t1 + 1\<rparr>)"
      by (rule readBoolean_prefix [OF d1 l1])
    have fin: "?t1\<lparr>readIndex := readIndex ?t1 + 1\<rparr> = s2\<lparr>readIndex := writeIndex s2\<rparr>"
      using wr12 idx wi2 by (simp add: written_def)
    have "writePlayerNameWithColor name isDev color s = Inr s2"
      using w1 w2 False
      by (simp add: writePlayerNameWithColor_def writePlayerName_def PLAYER_NAME_MAX_LENGTH_def)
    moreover have "readPlayerNameWithColor s2 =
        Inr (''<span '' @ '''' @ ''>'' @ ?name @ ''</span>'', s2\<lparr>readIndex := writeIndex s2\<rparr>)"
      using r1 r2 fin False
      by (simp add: readPlayerNameWithColor_def readPlayerName_def PLAYER_NAME_MAX_LENGTH_def)
    ultimately show ?thesis using False by simp
  next
    case True
    let ?color = "takeWhile (\<lambda>c. c \<noteq> CHR 0x00) (take 10 color)"
    have "writeIndex s2 + 8 * 10 \<le> length (buffer s2)"
      using space wi2 len2 True by simp
    then obtain s3 where w3: "writeUTF8String color 10 s2 = Inr s3"
      and wr3: "written s2 (utf8Bits color 10) s3"
      using written_writeUTF8String by blast
    have wr: "written s ((utf8Bits name 16 @ ?bb) @ utf8Bits color 10) s3"
      by (rule written_trans [OF wr12 wr3])
    have wi3: "writeIndex s3 = writeIndex s + 209"
      using wr3 wi2 by (simp add: written_def utf8Bits_length)
    have d: "drop (readIndex s3) (buffer s3)
               = utf8Bits name 16 @ ?bb @ utf8Bits color 10 @ drop (writeIndex s3) (buffer s3)"
      using written_read [OF wr idx] by simp
    have l: "readIndex s3 \<le> length (buffer s3)"
      using wr idx written_length [OF wr] by (simp add: written_def)
    let ?t1 = "s3\<lparr>readIndex := readIndex s3 + 8 * 16\<rparr>"
    have r1: "readUTF8String 16 s3 = Inr (?name, ?t1)"
      by (rule readUTF8String_prefix(1) [OF d l])
    have d1: "drop (readIndex ?t1) (buffer ?t1)
                = ?bb @ utf8Bits color 10 @ drop (writeIndex s3) (buffer s3)"
      using readUTF8String_prefix(2) [OF d l] by simp
    have l1: "readIndex ?t1 \<le> length (buffer ?t1)"
      using readUTF8String_prefix(3) [OF d l] by simp
    let ?t2 = "?t1\<lparr>readIndex := readIndex ?t1 + 1\<rparr>"
    have r2: "readBoolean ?t1 = Inr (isDev, ?t2)"
      by (rule readBoolean_prefix [OF d1 l1])
    have d2: "drop (readIndex ?t2) (buffer ?t2)
                = utf8Bits color 10 @ drop (writeIndex s3) (buffer s3)"
      using readBits_prefix(2) [OF d1 l1] by simp
    have l2: "readIndex ?t2 \<le> length (buffer ?t2)"
      using readBits_prefix(3) [OF d1 l1] by simp
    have r3: "readUTF8String 10 ?t2 = Inr (?color, ?t2\<lparr>readIndex := readIndex ?t2 + 8 * 10\<rparr>)"
      by (rule readUTF8String_prefix(1) [OF d2 l2])
    have fin: "?t2\<lparr>readIndex := readIndex ?t2 + 8 * 10\<rparr> = s3\<lparr>readIndex := writeIndex s3\<rparr>"
      using wr idx wi3 by (simp add: written_def)
    have "writePlayerNameWithColor name isDev color s = Inr s3"
      using w1 w2 w3 True
      by (simp add: writePlayerNameWithColor_def writePlayerName_def PLAYER_NAME_MAX_LENGTH_def)
    moreover have "readPlayerNameWithColor s3 =
        Inr (''<span '' @ (''style='' @ [CHR 0x22] @ ''color: '' @ ?color @ [CHR 0x22])
               @ ''>'' @ ?name @ ''</span>'', s3\<lparr>readIndex := writeIndex s3\<rparr>)"
      using r1 r2 r3 fin True
      by (simp add: readPlayerNameWithColor_def readPlayerName_def PLAYER_NAME_MAX_LENGTH_def)
    ultimately show ?thesis using True by simp
  qed
qed

text \<open>
  C1 (as the code has it): on a stream whose read cursor stands at the write cursor and
  that has room for the bits, every typed pair other than \<open>writeFloat\<close> and
  \<open>readFloat\<close> reads back as follows. The pairs that write raw bits (object ID,
  variation, packet type) return the value written when it fits the bit width. An object
  type is returned as written when its category fits the category bits and either the
  category has definitions and the index is a number that fits their bit count, or the
  category has no definitions and the type is the category-only type; with or without
  the category bits. The pairs built on \<open>writeFloat\<close> (vector, rotation, scale) return
  the quantised value, for a bit count from 1 to 30. \<open>readPosition\<close> after
  \<open>writePosition\<close> returns the 16-bit quantisation of the point with its Y coordinate
  subtracted from 720: the inversion is not undone by the reader.
  \<open>readObstacleRotation\<close> after \<open>writeObstacleRotation\<close> returns the 4-bit quantised
  angle in mode full, the normalised angle of \<open>k\<close> quarter turns for an orientation
  \<open>k\<close> below 4 in mode limited, a quarter turn or 0 for the orientation 1 or 0 in mode
  binary, and 0, with nothing written, in every other mode. A player name is returned up
  to its first zero byte among its first 16 bytes, so as written when it has at most 16
  bytes and no zero byte. \<open>readPlayerNameWithColor\<close> returns the markup around that
  name, with the colour, cut in the same way after 10 bytes, when the flag is set.
\<close>

theorem typed_helpers_read_after_write:
  assumes idx: "readIndex s = writeIndex s"
  shows "(ident < 2 ^ 11 \<and> writeIndex s + 11 \<le> length (buffer s) \<longrightarrow>
            (\<exists>s'. writeObjectID ident s = Inr s' \<and>
                  readObjectID s' = Inr (ident, s'\<lparr>readIndex := writeIndex s'\<rparr>))) \<and>
         (variation < 2 ^ 3 \<and> writeIndex s + 3 \<le> length (buffer s) \<longrightarrow>
            (\<exists>s'. writeVariation variation s = Inr s' \<and>
                  readVariation s' = Inr (variation, s'\<lparr>readIndex := writeIndex s'\<rparr>))) \<and>
         (packetType < 2 ^ 4 \<and> writeIndex s + 4 \<le> length (buffer s) \<longrightarrow>
            (\<exists>s'. writePacketType packetType s = Inr s' \<and>
                  readPacketType s' = Inr (packetType, s'\<lparr>readIndex := writeIndex s'\<rparr>))) \<and>
         (category type < 2 ^ 3 \<and>
          ObjectDefinitionsList (category type) = Some definitions \<and>
          bitCount' definitions \<le> 31 \<and>
          0 \<le> idNumber type \<and> idNumber type < 2 ^ bitCount' definitions \<and>
          writeIndex s + 3 + bitCount' definitions \<le> length (buffer s) \<longrightarrow>
            (\<exists>s'. writeObjectType ObjectDefinitionsList type s = Inr s' \<and>
                  readObjectType ObjectDefinitionsList s' =
                    Inr (type, s'\<lparr>readIndex := writeIndex s'\<rparr>))) \<and>
         (category type < 2 ^ 3 \<and> ObjectDefinitionsList (category type) = None \<and>
          writeIndex s + 3 \<le> length (buffer s) \<longrightarrow>
            (\<exists>s'. writeObjectType ObjectDefinitionsList type s = Inr s' \<and>
                  readObjectType ObjectDefinitionsList s' =
                    Inr (categoryOnly (category type), s'\<lparr>readIndex := writeIndex s'\<rparr>))) \<and>
         (ObjectDefinitionsList (category type) = Some definitions \<and>
          bitCount' definitions \<le> 31 \<and>
          0 \<le> idNumber type \<and> idNumber type < 2 ^ bitCount' definitions \<and>
          writeIndex s + bitCount' definitions \<le> length (buffer s) \<longrightarrow>
            (\<exists>s'. writeObjectTypeNoCategory ObjectDefinitionsList type s = Inr s' \<and>
                  readObjectTypeNoCategory ObjectDefinitionsList (category type) s' =
                    Inr (type, s'\<lparr>readIndex := writeIndex s'\<rparr>))) \<and>
         (ObjectDefinitionsList (category type) = None \<longrightarrow>
            writeObjectTypeNoCategory ObjectDefinitionsList type s = Inr s \<and>
            readObjectTypeNoCategory ObjectDefinitionsList (category type) s =
              Inr (categoryOnly (category type), s)) \<and>
         (1 \<le> b \<and> b \<le> 30 \<and> minX \<le> maxX \<and> minY \<le> maxY \<and>
          writeIndex s + 2 * b \<le> length (buffer s) \<longrightarrow>
            (\<exists>s'. writeVector vector minX minY maxX maxY b s = Inr s' \<and>
                  readVector minX minY maxX maxY b s' =
                    Inr (\<lparr>x = specDequantize (specQuantize (x vector) minX maxX b) minX maxX b,
                          y = specDequantize (specQuantize (y vector) minY maxY b) minY maxY b\<rparr>,
                         s'\<lparr>readIndex := writeIndex s'\<rparr>))) \<and>
         (writeIndex s + 32 \<le> length (buffer s) \<longrightarrow>
            (\<exists>s'. writePosition p s = Inr s' \<and>
                  readPosition s' =
                    Inr (\<lparr>x = specDequantize (specQuantize (x p) 0 1024 16) 0 1024 16,
                          y = specDequantize (specQuantize (720 - y p) 0 1024 16) 0 1024 16\<rparr>,
                         s'\<lparr>readIndex := writeIndex s'\<rparr>))) \<and>
         (1 \<le> b \<and> b \<le> 30 \<and> writeIndex s + b \<le> length (buffer s) \<longrightarrow>
            (\<exists>s'. writeRotation val b s = Inr s' \<and>
                  readRotation b s' =
                    Inr (specDequantize (specQuantize val (- pi) pi b) (- pi) pi b,
                         s'\<lparr>readIndex := writeIndex s'\<rparr>))) \<and>
         (writeIndex s + 8 \<le> length (buffer s) \<longrightarrow>
            (\<exists>s'. writeScale val s = Inr s' \<and>
                  readScale s' =
                    Inr (specDequantize (specQuantize val (1 / 4) 2 8) (1 / 4) 2 8,
                         s'\<lparr>readIndex := writeIndex s'\<rparr>))) \<and>
         (writeIndex s + 4 \<le> length (buffer s) \<longrightarrow>
            (\<exists>s'. writeObstacleRotation val ''full'' s = Inr s' \<and>
                  readObstacleRotation ''full'' s' =
                    Inr (specDequantize (specQuantize val (- pi) pi 4) (- pi) pi 4,
                         s'\<lparr>readIndex := writeIndex s'\<rparr>))) \<and>
         (k < 4 \<and> writeIndex s + 2 \<le> length (buffer s) \<longrightarrow>
            (\<exists>s'. writeObstacleRotation (real k) ''limited'' s = Inr s' \<and>
                  readObstacleRotation ''limited'' s' =
                    Inr (normalizeAngle (real k * (pi / 2)), s'\<lparr>readIndex := writeIndex s'\<rparr>))) \<and>
         (j < 2 \<and> writeIndex s + 1 \<le> length (buffer s) \<longrightarrow>
            (\<exists>s'. writeObstacleRotation (real j) ''binary'' s = Inr s' \<and>
                  readObstacleRotation ''binary'' s' =
                    Inr (if j = 1 then pi / 2 else 0, s'\<lparr>readIndex := writeIndex s'\<rparr>))) \<and>
         (mode \<noteq> ''full'' \<and> mode \<noteq> ''limited'' \<and> mode \<noteq> ''binary'' \<longrightarrow>
            writeObstacleRotation val mode s = Inr s \<and>
            readObstacleRotation mode s = Inr (0, s)) \<and>
         (writeIndex s + 128 \<le> length (buffer s) \<longrightarrow>
            (\<exists>s'. writePlayerName name s = Inr s' \<and>
                  readPlayerName s' =
                    Inr (takeWhile (\<lambda>c. c \<noteq> CHR 0x00) (take 16 name),
                         s'\<lparr>readIndex := writeIndex s'\<rparr>) \<and>
                  (length name \<le> 16 \<and> CHR 0x00 \<notin> set name \<longrightarrow>
                     readPlayerName s' = Inr (name, s'\<lparr>readIndex := writeIndex s'\<rparr>)))) \<and>
         (writeIndex s + (if isDev then 209 else 129) \<le> length (buffer s) \<longrightarrow>
            (\<exists>s'. writePlayerNameWithColor name isDev color s = Inr s' \<and>
                  readPlayerNameWithColor s' =
                    Inr (''<span ''
                           @ (if isDev
                              then ''style='' @ [CHR 0x22] @ ''color: ''
                                     @ takeWhile (\<lambda>c. c \<noteq> CHR 0x00) (take 10 color)
                                     @ [CHR 0x22]
                              else '''')
                           @ ''>'' @ takeWhile (\<lambda>c. c \<noteq> CHR 0x00) (take 16 name)
                           @ ''</span>'',
                         s'\<lparr>readIndex := writeIndex s'\<rparr>)))"
proof (intro conjI impI; (elim conjE)?)
  assume "ident < 2 ^ 11" "writeIndex s + 11 \<le> length (buffer s)"
  then show "\<exists>s'. writeObjectID ident s = Inr s' \<and>
      readObjectID s' = Inr (ident, s'\<lparr>readIndex := writeIndex s'\<rparr>)"
    using readBits_writeBits_nat [of ident 11 s] idx
    by (simp add: writeObjectID_def readObjectID_def OBJECT_ID_BITS_def)
next
  assume "variation < 2 ^ 3" "writeIndex s + 3 \<le> length (buffer s)"
  then show "\<exists>s'. writeVariation variation s = Inr s' \<and>
      readVariation s' = Inr (variation, s'\<lparr>readIndex := writeIndex s'\<rparr>)"
    using readBits_writeBits_nat [of variation 3 s] idx
    by (simp add: writeVariation_def readVariation_def VARIATION_BITS_def)
next
  assume "packetType < 2 ^ 4" "writeIndex s + 4 \<le> length (buffer s)"
  then show "\<exists>s'. writePacketType packetType s = Inr s' \<and>
      readPacketType s' = Inr (packetType, s'\<lparr>readIndex := writeIndex s'\<rparr>)"
    using readBits_writeBits_nat [of packetType 4 s] idx
    by (simp add: writePacketType_def readPacketType_def PACKET_TYPE_BITS_eq)
next
  assume "category type < 2 ^ 3" "ObjectDefinitionsList (category type) = Some definitions"
    "bitCount' definitions \<le> 31" "0 \<le> idNumber type" "idNumber type < 2 ^ bitCount' definitions"
    "writeIndex s + 3 + bitCount' definitions \<le> length (buffer s)"
  then show "\<exists>s'. writeObjectType ObjectDefinitionsList type s = Inr s' \<and>
      readObjectType ObjectDefinitionsList s' = Inr (type, s'\<lparr>readIndex := writeIndex s'\<rparr>)"
    by (rule readObjectType_writeObjectType [OF idx])
next
  assume "category type < 2 ^ 3" "ObjectDefinitionsList (category type) = None"
    "writeIndex s + 3 \<le> length (buffer s)"
  then show "\<exists>s'. writeObjectType ObjectDefinitionsList type s = Inr s' \<and>
      readObjectType ObjectDefinitionsList s' =
        Inr (categoryOnly (category type), s'\<lparr>readIndex := writeIndex s'\<rparr>)"
    by (rule readObjectType_writeObjectType_categoryOnly [OF idx])
next
  assume "ObjectDefinitionsList (category type) = Some definitions"
    "bitCount' definitions \<le> 31" "0 \<le> idNumber type" "idNumber type < 2 ^ bitCount' definitions"
    "writeIndex s + bitCount' definitions \<le> length (buffer s)"
  then show "\<exists>s'. writeObjectTypeNoCategory ObjectDefinitionsList type s = Inr s' \<and>
      readObjectTypeNoCategory ObjectDefinitionsList (category type) s' =
        Inr (type, s'\<lparr>readIndex := writeIndex s'\<rparr>)"
    by (rule readObjectTypeNoCategory_writeObjectTypeNoCategory [OF idx])
next
  assume "ObjectDefinitionsList (category type) = None"
  then show "writeObjectTypeNoCategory ObjectDefinitionsList type s = Inr s"
    by (simp add: writeObjectTypeNoCategory_def)
next
  assume "ObjectDefinitionsList (category type) = None"
  then show "readObjectTypeNoCategory ObjectDefinitionsList (category type) s =
      Inr (categoryOnly (category type), s)"
    by (simp add: readObjectTypeNoCategory_def)
next
  assume "1 \<le> b" "b \<le> 30" "minX \<le> maxX" "minY \<le> maxY"
    "writeIndex s + 2 * b \<le> length (buffer s)"
  then show "\<exists>s'. writeVector vector minX minY maxX maxY b s = Inr s' \<and>
      readVector minX minY maxX maxY b s' =
        Inr (\<lparr>x = specDequantize (specQuantize (x vector) minX maxX b) minX maxX b,
              y = specDequantize (specQuantize (y vector) minY maxY b) minY maxY b\<rparr>,
             s'\<lparr>readIndex := writeIndex s'\<rparr>)"
    using readVector_writeVector2 [of b minX maxX minY maxY s "x vector" "y vector"] idx
    by (auto simp: writeVector_def)
next
  assume "writeIndex s + 32 \<le> length (buffer s)"
  then show "\<exists>s'. writePosition p s = Inr s' \<and>
      readPosition s' =
        Inr (\<lparr>x = specDequantize (specQuantize (x p) 0 1024 16) 0 1024 16,
              y = specDequantize (specQuantize (720 - y p) 0 1024 16) 0 1024 16\<rparr>,
             s'\<lparr>readIndex := writeIndex s'\<rparr>)"
    by (rule readPosition_writePosition [OF idx])
next
  assume "1 \<le> b" "b \<le> 30" "writeIndex s + b \<le> length (buffer s)"
  then show "\<exists>s'. writeRotation val b s = Inr s' \<and>
      readRotation b s' =
        Inr (specDequantize (specQuantize val (- pi) pi b) (- pi) pi b,
             s'\<lparr>readIndex := writeIndex s'\<rparr>)"
    using readFloat_writeFloat [of b "- pi" pi s val] idx
    by (simp add: writeRotation_def readRotation_def)
next
  assume "writeIndex s + 8 \<le> length (buffer s)"
  then show "\<exists>s'. writeScale val s = Inr s' \<and>
      readScale s' =
        Inr (specDequantize (specQuantize val (1 / 4) 2 8) (1 / 4) 2 8,
             s'\<lparr>readIndex := writeIndex s'\<rparr>)"
    using readFloat_writeFloat [of 8 "1 / 4" 2 s val] idx
    by (simp add: writeScale_def readScale_def MIN_OBJECT_SCALE_def MAX_OBJECT_SCALE_def)
next
  assume "writeIndex s + 4 \<le> length (buffer s)"
  then show "\<exists>s'. writeObstacleRotation val ''full'' s = Inr s' \<and>
      readObstacleRotation ''full'' s' =
        Inr (specDequantize (specQuantize val (- pi) pi 4) (- pi) pi 4,
             s'\<lparr>readIndex := writeIndex s'\<rparr>)"
    by (rule readObstacleRotation_full [OF idx])
next
  assume "k < 4" "writeIndex s + 2 \<le> length (buffer s)"
  then obtain s' where "writeBits (real k) 2 s = Inr s'"
    "readBits 2 s' = Inr (k, s'\<lparr>readIndex := writeIndex s'\<rparr>)"
    using readBits_writeBits_nat [of k 2 s] idx by auto
  then show "\<exists>s'. writeObstacleRotation (real k) ''limited'' s = Inr s' \<and>
      readObstacleRotation ''limited'' s' =
        Inr (normalizeAngle (real k * (pi / 2)), s'\<lparr>readIndex := writeIndex s'\<rparr>)"
    by (simp add: writeObstacleRotation_def readObstacleRotation_def)
next
  assume "j < 2" "writeIndex s + 1 \<le> length (buffer s)"
  then obtain s' where "writeBits (real j) 1 s = Inr s'"
    "readBits 1 s' = Inr (j, s'\<lparr>readIndex := writeIndex s'\<rparr>)"
    using readBits_writeBits_nat [of j 1 s] idx by auto
  then show "\<exists>s'. writeObstacleRotation (real j) ''binary'' s = Inr s' \<and>
      readObstacleRotation ''binary'' s' =
        Inr (if j = 1 then pi / 2 else 0, s'\<lparr>readIndex := writeIndex s'\<rparr>)"
    using \<open>j < 2\<close> by (auto simp: writeObstacleRotation_def readObstacleRotation_def readBoolean_def)
next
  assume "mode \<noteq> ''full''" "mode \<noteq> ''limited''" "mode \<noteq> ''binary''"
  then show "writeObstacleRotation val mode s = Inr s"
    by (simp add: writeObstacleRotation_def)
next
  assume "mode \<noteq> ''full''" "mode \<noteq> ''limited''" "mode \<noteq> ''binary''"
  then show "readObstacleRotation mode s = Inr (0, s)"
    by (simp add: readObstacleRotation_def)
next
  assume space: "writeIndex s + 128 \<le> length (buffer s)"
  obtain s' where w: "writePlayerName name s = Inr s'"
    and r: "readPlayerName s' =
              Inr (takeWhile (\<lambda>c. c \<noteq> CHR 0x00) (take 16 name),
                   s'\<lparr>readIndex := writeIndex s'\<rparr>)"
    using readPlayerName_writePlayerName [OF idx space] by blast
  have "takeWhile (\<lambda>c. c \<noteq> CHR 0x00) (take 16 name) = name"
    if "length name \<le> 16" "CHR 0x00 \<notin> set name"
    using that by (simp add: takeWhile_eq_all_conv) (metis)
  then show "\<exists>s'. writePlayerName name s = Inr s' \<and>
      readPlayerName s' =
        Inr (takeWhile (\<lambda>c. c \<noteq> CHR 0x00) (take 16 name), s'\<lparr>readIndex := writeIndex s'\<rparr>) \<and>
      (length name \<le> 16 \<and> CHR 0x00 \<notin> set name \<longrightarrow>
         readPlayerName s' = Inr (name, s'\<lparr>readIndex := writeIndex s'\<rparr>))"
    using w r by auto
next
  assume "writeIndex s + (if isDev then 209 else 129) \<le> length (buffer s)"
  then show "\<exists>s'. writePlayerNameWithColor name isDev color s = Inr s' \<and>
      readPlayerNameWithColor s' =
        Inr (''<span ''
               @ (if isDev
                  then ''style='' @ [CHR 0x22] @ ''color: ''
                         @ takeWhile (\<lambda>c. c \<noteq> CHR 0x00) (take 10 color) @ [CHR 0x22]
                  else '''')
               @ ''>'' @ takeWhile (\<lambda>c. c \<noteq> CHR 0x00) (take 16 name) @ ''</span>'',
             s'\<lparr>readIndex := writeIndex s'\<rparr>)"
    by (rule readPlayerNameWithColor_writePlayerNameWithColor [OF idx])
qed

text \<open>
  The theorem on a stream of 32 bytes, for an object ID, a variation, a packet type, a
  type of category 4 with the index 17 among definitions of 5 bits, the category-only
  type of category 0, a vector, a position, a rotation, a scale, the obstacle rotations
  of each mode, and the name Bob with a colour.
\<close>

theorem typed_helpers_read_after_write_witness:
  "(\<exists>s'. writeObjectID 5 (alloc 32) = Inr s' \<and>
         readObjectID s' = Inr (5, s'\<lparr>readIndex := writeIndex s'\<rparr>)) \<and>
   (\<exists>s'. writeVariation 2 (alloc 32) = Inr s' \<and>
         readVariation s' = Inr (2, s'\<lparr>readIndex := writeIndex s'\<rparr>)) \<and>
   (\<exists>s'. writePacketType 3 (alloc 32) = Inr s' \<and>
         readPacketType s' = Inr (3, s'\<lparr>readIndex := writeIndex s'\<rparr>)) \<and>
   (\<exists>s'. writeObjectType [4 \<mapsto> \<lparr>bitCount' = 5\<rparr>] (fromNumber 4 17) (alloc 32) = Inr s' \<and>
         readObjectType [4 \<mapsto> \<lparr>bitCount' = 5\<rparr>] s' =
           Inr (fromNumber 4 17, s'\<lparr>readIndex := writeIndex s'\<rparr>)) \<and>
   (\<exists>s'. writeObjectType [4 \<mapsto> \<lparr>bitCount' = 5\<rparr>] (categoryOnly 0) (alloc 32) = Inr s' \<and>
         readObjectType [4 \<mapsto> \<lparr>bitCount' = 5\<rparr>] s' =
           Inr (categoryOnly 0, s'\<lparr>readIndex := writeIndex s'\<rparr>)) \<and>
   (\<exists>s'. writeObjectTypeNoCategory [4 \<mapsto> \<lparr>bitCount' = 5\<rparr>] (fromNumber 4 17) (alloc 32)
           = Inr s' \<and>
         readObjectTypeNoCategory [4 \<mapsto> \<lparr>bitCount' = 5\<rparr>] 4 s' =
           Inr (fromNumber 4 17, s'\<lparr>readIndex := writeIndex s'\<rparr>)) \<and>
   writeObjectTypeNoCategory [4 \<mapsto> \<lparr>bitCount' = 5\<rparr>] (categoryOnly 0) (alloc 32)
     = Inr (alloc 32) \<and>
   readObjectTypeNoCategory [4 \<mapsto> \<lparr>bitCount' = 5\<rparr>] 0 (alloc 32)
     = Inr (categoryOnly 0, alloc 32) \<and>
   (\<exists>s'. writeVector (v 1 2) 0 0 10 10 16 (alloc 32) = Inr s' \<and>
         readVector 0 0 10 10 16 s' =
           Inr (\<lparr>x = specDequantize (specQuantize (x (v 1 2)) 0 10 16) 0 10 16,
                 y = specDequantize (specQuantize (y (v 1 2)) 0 10 16) 0 10 16\<rparr>,
                s'\<lparr>readIndex := writeIndex s'\<rparr>)) \<and>
   (\<exists>s'. writePosition (v 100 200) (alloc 32) = Inr s' \<and>
         readPosition s' =
           Inr (\<lparr>x = specDequantize (specQuantize (x (v 100 200)) 0 1024 16) 0 1024 16,
                 y = specDequantize (specQuantize (720 - y (v 100 200)) 0 1024 16) 0 1024 16\<rparr>,
                s'\<lparr>readIndex := writeIndex s'\<rparr>)) \<and>
   (\<exists>s'. writeRotation 1 16 (alloc 32) = Inr s' \<and>
         readRotation 16 s' =
           Inr (specDequantize (specQuantize 1 (- pi) pi 16) (- pi) pi 16,
                s'\<lparr>readIndex := writeIndex s'\<rparr>)) \<and>
   (\<exists>s'. writeScale 1 (alloc 32) = Inr s' \<and>
         readScale s' =
           Inr (specDequantize (specQuantize 1 (1 / 4) 2 8) (1 / 4) 2 8,
                s'\<lparr>readIndex := writeIndex s'\<rparr>)) \<and>
   (\<exists>s'. writeObstacleRotation 1 ''full'' (alloc 32) = Inr s' \<and>
         readObstacleRotation ''full'' s' =
           Inr (specDequantize (specQuantize 1 (- pi) pi 4) (- pi) pi 4,
                s'\<lparr>readIndex := writeIndex s'\<rparr>)) \<and>
   (\<exists>s'. writeObstacleRotation (real 3) ''limited'' (alloc 32) = Inr s' \<and>
         readObstacleRotation ''limited'' s' =
           Inr (normalizeAngle (real 3 * (pi / 2)), s'\<lparr>readIndex := writeIndex s'\<rparr>)) \<and>
   (\<exists>s'. writeObstacleRotation (real 1) ''binary'' (alloc 32) = Inr s' \<and>
         readObstacleRotation ''binary'' s' =
           Inr (pi / 2, s'\<lparr>readIndex := writeIndex s'\<rparr>)) \<and>
   writeObstacleRotation 1 ''none'' (alloc 32) = Inr (alloc 32) \<and>
   readObstacleRotation ''none'' (alloc 32) = Inr (0, alloc 32) \<and>
   (\<exists>s'. writePlayerName ''Bob'' (alloc 32) = Inr s' \<and>
         readPlayerName s' = Inr (''Bob'', s'\<lparr>readIndex := writeIndex s'\<rparr>)) \<and>
   (\<exists>s'. writePlayerNameWithColor ''Bob'' True ''#ff0000'' (alloc 32) = Inr s' \<and>
         readPlayerNameWithColor s' =
           Inr (''<span style='' @ [CHR 0x22] @ ''color: #ff0000'' @ [CHR 0x22]
                  @ ''>Bob</span>'',
                s'\<lparr>readIndex := writeIndex s'\<rparr>))"
  using typed_helpers_read_after_write [where s = "alloc 32" and ident = 5 and variation = 2
      and packetType = 3 and type = "fromNumber 4 17"
      and ObjectDefinitionsList = "[4 \<mapsto> \<lparr>bitCount' = 5\<rparr>]"
      and definitions = "\<lparr>bitCount' = 5\<rparr>" and b = 16 and vector = "v 1 2"
      and minX = 0 and minY = 0 and maxX = 10 and maxY = 10
      and p = "v 100 200" and val = 1 and k = 3 and j = 1
      and mode = "''none''" and name = "''Bob''" and isDev = True and color = "''#ff0000''"]
    typed_helpers_read_after_write [where s = "alloc 32" and type = "categoryOnly 0"
      and ObjectDefinitionsList = "[4 \<mapsto> \<lparr>bitCount' = 5\<rparr>]"]
  by (simp add: alloc_def fromNumber_def categoryOnly_def)

lemma normalizeAngle_three_half_pi: "normalizeAngle (3 * pi / 2) = - (pi / 2)"
proof -
  have q: "(3 * pi / 2 - pi) / (2 * pi) = 1 / 4" by (simp add: field_simps)
  have "\<lceil>(1::real) / 4\<rceil> = 1" by (rule ceiling_unique) simp_all
  then show ?thesis unfolding normalizeAngle_def q by simp
qed

lemma obstacle_rotation_not_identity:
  "(case writeObstacleRotation 3 ''limited'' (alloc 1) of Inl e \<Rightarrow> False
    | Inr s \<Rightarrow> (case readObstacleRotation ''limited'' s of Inl e \<Rightarrow> False
                  | Inr (r, s') \<Rightarrow> r \<noteq> 3))"
proof -
  have neq: "- (pi / 2) \<noteq> 3" using pi_gt_zero by linarith
  obtain s' where w: "writeBits (real 3) 2 (alloc 1) = Inr s'"
    and r: "readBits 2 s' = Inr (3, s'\<lparr>readIndex := writeIndex s'\<rparr>)"
    using readBits_writeBits_nat [of 3 2 "alloc 1"] by (auto simp: alloc_def)
  show ?thesis using w r neq
    by (simp add: writeObstacleRotation_def readObstacleRotation_def normalizeAngle_three_half_pi)
qed

lemma position_not_identity:
  "(case writePosition (v 0 0) (alloc 4) of Inl e \<Rightarrow> False
    | Inr s \<Rightarrow> (case readPosition s of Inl e \<Rightarrow> False
                  | Inr (p, s') \<Rightarrow> p \<noteq> v 0 0))"
proof -
  obtain s' where w: "writePosition (v 0 0) (alloc 4) = Inr s'"
    and r: "readPosition s' =
             Inr (\<lparr>x = specDequantize (specQuantize (x (v 0 0)) 0 1024 16) 0 1024 16,
                   y = specDequantize (specQuantize (720 - y (v 0 0)) 0 1024 16) 0 1024 16\<rparr>,
                  s'\<lparr>readIndex := writeIndex s'\<rparr>)"
    using readPosition_writePosition [of "alloc 4" "v 0 0"] by (auto simp: alloc_def)
  have "specDequantize (specQuantize (720 - y (v 0 0)) 0 1024 16) 0 1024 16 = 47184896 / 65535"
    by (simp add: v_def specQuantize_def specDequantize_def)
  then have "specDequantize (specQuantize (720 - y (v 0 0)) 0 1024 16) 0 1024 16 \<noteq> y (v 0 0)"
    by (simp add: v_def)
  then have "\<lparr>x = specDequantize (specQuantize (x (v 0 0)) 0 1024 16) 0 1024 16,
              y = specDequantize (specQuantize (720 - y (v 0 0)) 0 1024 16) 0 1024 16\<rparr> \<noteq> v 0 0"
    by (metis Vector.select_convs(2))
  then show ?thesis unfolding w by (simp add: r)
qed

lemma rotation_not_identity:
  "(case writeRotation 0 16 (alloc 2) of Inl e \<Rightarrow> False
    | Inr s \<Rightarrow> (case readRotation 16 s of Inl e \<Rightarrow> False
                  | Inr (r, s') \<Rightarrow> r \<noteq> 0))"
proof -
  have lohi: "- pi \<le> pi" by simp
  obtain s' where w: "writeFloat 0 (- pi) pi 16 (alloc 2) = Inr s'"
    and r: "readFloat (- pi) pi 16 s' =
              Inr (specDequantize (specQuantize 0 (- pi) pi 16) (- pi) pi 16,
                   s'\<lparr>readIndex := writeIndex s'\<rparr>)"
    using readFloat_writeFloat [OF _ _ lohi, of 16 "alloc 2" 0] by (auto simp: alloc_def)
  have "min pi 0 = 0" "max (- pi) 0 = 0" using pi_ge_zero by simp_all
  then have half: "(max (- pi) (min pi 0) - - pi) / (pi - - pi) = 1 / 2"
    using pi_gt_zero by simp
  have "specQuantize 0 (- pi) pi 16 = 32768"
    unfolding specQuantize_def half by simp
  then have "specDequantize (specQuantize 0 (- pi) pi 16) (- pi) pi 16 = pi / 65535"
    by (simp add: specDequantize_def field_simps)
  moreover have "pi / 65535 \<noteq> 0" using pi_gt_zero by simp
  ultimately have "specDequantize (specQuantize 0 (- pi) pi 16) (- pi) pi 16 \<noteq> 0"
    by (simp only:) simp
  then show ?thesis using w r by (simp add: writeRotation_def readRotation_def)
qed

lemma scale_not_identity:
  "(case writeScale 1 (alloc 1) of Inl e \<Rightarrow> False
    | Inr s \<Rightarrow> (case readScale s of Inl e \<Rightarrow> False
                  | Inr (r, s') \<Rightarrow> r \<noteq> 1))"
  by code_simp

lemma vector_not_identity:
  "(case writeVector (v 0.3 0.3) 0 0 1 1 4 (alloc 1) of Inl e \<Rightarrow> False
    | Inr s \<Rightarrow> (case readVector 0 0 1 1 4 s of Inl e \<Rightarrow> False
                  | Inr (p, s') \<Rightarrow> x p \<noteq> 0.3))"
  by code_simp

lemma name_not_identity:
  "(case writePlayerName ''0123456789abcdefg'' (alloc 16) of Inl e \<Rightarrow> False
    | Inr s \<Rightarrow> (case readPlayerName s of Inl e \<Rightarrow> False
                  | Inr (name, s') \<Rightarrow> name = ''0123456789abcdef''))"
  by code_simp

lemma name_with_color_not_identity:
  "(case writePlayerNameWithColor ''Bob'' False '''' (alloc 17) of Inl e \<Rightarrow> False
    | Inr s \<Rightarrow> (case readPlayerNameWithColor s of Inl e \<Rightarrow> False
                  | Inr (name, s') \<Rightarrow> name = ''<span >Bob</span>''))"
  by code_simp

text \<open>
  C1 (as stated, refuted): the position (0, 0) is read back as (0, 47184896 / 65535); the
  orientation 3 written in mode limited is read back as minus a quarter turn; the
  rotation 0 written with 16 bits is read back as \<open>\<pi> / 65535\<close>; the scale 1 and the
  vector (0.3, 0.3) are read back as other numbers; a name of 17 bytes is read back
  without its last byte; and the name Bob written with its colour is read back as the
  markup around it.
\<close>

theorem typed_helpers_counterexample:
  "(case writePosition (v 0 0) (alloc 4) of Inl e \<Rightarrow> False
    | Inr s \<Rightarrow> (case readPosition s of Inl e \<Rightarrow> False
                  | Inr (p, s') \<Rightarrow> p \<noteq> v 0 0)) \<and>
   (case writeObstacleRotation 3 ''limited'' (alloc 1) of Inl e \<Rightarrow> False
    | Inr s \<Rightarrow> (case readObstacleRotation ''limited'' s of Inl e \<Rightarrow> False
                  | Inr (r, s') \<Rightarrow> r \<noteq> 3)) \<and>
   (case writeRotation 0 16 (alloc 2) of Inl e \<Rightarrow> False
    | Inr s \<Rightarrow> (case readRotation 16 s of Inl e \<Rightarrow> False
                  | Inr (r, s') \<Rightarrow> r \<noteq> 0)) \<and>
   (case writeScale 1 (alloc 1) of Inl e \<Rightarrow> False
    | Inr s \<Rightarrow> (case readScale s of Inl e \<Rightarrow> False
                  | Inr (r, s') \<Rightarrow> r \<noteq> 1)) \<and>
   (case writeVector (v 0.3 0.3) 0 0 1 1 4 (alloc 1) of Inl e \<Rightarrow> False
    | Inr s \<Rightarrow> (case readVector 0 0 1 1 4 s of Inl e \<Rightarrow> False
                  | Inr (p, s') \<Rightarrow> x p \<noteq> 0.3)) \<and>
   (case writePlayerName ''0123456789abcdefg'' (alloc 16) of Inl e \<Rightarrow> False
    | Inr s \<Rightarrow> (case readPlayerName s of Inl e \<Rightarrow> False
                  | Inr (name, s') \<Rightarrow> name = ''0123456789abcdef'')) \<and>
   (case writePlayerNameWithColor ''Bob'' False '''' (alloc 17) of Inl e \<Rightarrow> False
    | Inr s \<Rightarrow> (case readPlayerNameWithColor s of Inl e \<Rightarrow> False
                  | Inr (name, s') \<Rightarrow> name = ''<span >Bob</span>''))"
  using position_not_identity obstacle_rotation_not_identity rotation_not_identity
    scale_not_identity vector_not_identity name_not_identity name_with_color_not_identity
  by (intro conjI)

section \<open>Properties of the dirty-set projection\<close>

lemma fold_fullObjects:
  "visibleObjects (fold (\<lambda>object q. if object \<in> visibleObjects q
        then q\<lparr>fullDirtyObjects := insert object (fullDirtyObjects q)\<rparr> else q) objs p)
     = visibleObjects p \<and>
   fullDirtyObjects (fold (\<lambda>object q. if object \<in> visibleObjects q
        then q\<lparr>fullDirtyObjects := insert object (fullDirtyObjects q)\<rparr> else q) objs p)
     = fullDirtyObjects p \<union> (set objs \<inter> visibleObjects p) \<and>
   partialDirtyObjects (fold (\<lambda>object q. if object \<in> visibleObjects q
        then q\<lparr>fullDirtyObjects := insert object (fullDirtyObjects q)\<rparr> else q) objs p)
     = partialDirtyObjects p \<and>
   deletedObjects (fold (\<lambda>object q. if object \<in> visibleObjects q
        then q\<lparr>fullDirtyObjects := insert object (fullDirtyObjects q)\<rparr> else q) objs p)
     = deletedObjects p"
  by (induction objs arbitrary: p) auto

lemma fold_partialObjects:
  "visibleObjects (fold (\<lambda>object q. if object \<in> visibleObjects q \<and> object \<notin> fullDirtyObjects q
        then q\<lparr>partialDirtyObjects := insert object (partialDirtyObjects q)\<rparr> else q) objs p)
     = visibleObjects p \<and>
   fullDirtyObjects (fold (\<lambda>object q. if object \<in> visibleObjects q \<and> object \<notin> fullDirtyObjects q
        then q\<lparr>partialDirtyObjects := insert object (partialDirtyObjects q)\<rparr> else q) objs p)
     = fullDirtyObjects p \<and>
   partialDirtyObjects (fold (\<lambda>object q. if object \<in> visibleObjects q \<and> object \<notin> fullDirtyObjects q
        then q\<lparr>partialDirtyObjects := insert object (partialDirtyObjects q)\<rparr> else q) objs p)
     = partialDirtyObjects p \<union> {object \<in> set objs. object \<in> visibleObjects p \<and> object \<notin> fullDirtyObjects p} \<and>
   deletedObjects (fold (\<lambda>object q. if object \<in> visibleObjects q \<and> object \<notin> fullDirtyObjects q
        then q\<lparr>partialDirtyObjects := insert object (partialDirtyObjects q)\<rparr> else q) objs p)
     = deletedObjects p"
  by (induction objs arbitrary: p) auto

lemma fold_deletedObjects:
  "visibleObjects (fold (\<lambda>object q. if object \<in> visibleObjects q \<and> object \<noteq> this
        then q\<lparr>deletedObjects := insert object (deletedObjects q)\<rparr> else q) objs p)
     = visibleObjects p \<and>
   fullDirtyObjects (fold (\<lambda>object q. if object \<in> visibleObjects q \<and> object \<noteq> this
        then q\<lparr>deletedObjects := insert object (deletedObjects q)\<rparr> else q) objs p)
     = fullDirtyObjects p \<and>
   partialDirtyObjects (fold (\<lambda>object q. if object \<in> visibleObjects q \<and> object \<noteq> this
        then q\<lparr>deletedObjects := insert object (deletedObjects q)\<rparr> else q) objs p)
     = partialDirtyObjects p \<and>
   deletedObjects (fold (\<lambda>object q. if object \<in> visibleObjects q \<and> object \<noteq> this
        then q\<lparr>deletedObjects := insert object (deletedObjects q)\<rparr> else q) objs p)
     = deletedObjects p \<union> {object \<in> set objs. object \<in> visibleObjects p \<and> object \<noteq> this}"
  by (induction objs arbitrary: p) auto

lemma tick_fullObjects_sets:
  "visibleObjects (tick_fullObjects g p) = visibleObjects p"
  "fullDirtyObjects (tick_fullObjects g p)
     = fullDirtyObjects p \<union> (set (game_fullDirtyObjects g) \<inter> visibleObjects p)"
  "partialDirtyObjects (tick_fullObjects g p) = partialDirtyObjects p"
  "deletedObjects (tick_fullObjects g p) = deletedObjects p"
  by (simp_all add: tick_fullObjects_def fold_fullObjects)

lemma tick_partialObjects_sets:
  "visibleObjects (tick_partialObjects g p) = visibleObjects p"
  "fullDirtyObjects (tick_partialObjects g p) = fullDirtyObjects p"
  "partialDirtyObjects (tick_partialObjects g p)
     = partialDirtyObjects p \<union> {object \<in> set (game_partialDirtyObjects g).
          object \<in> visibleObjects p \<and> object \<notin> fullDirtyObjects p}"
  "deletedObjects (tick_partialObjects g p) = deletedObjects p"
  by (simp_all add: tick_partialObjects_def fold_partialObjects)

lemma tick_deletedObjects_sets:
  "visibleObjects (tick_deletedObjects g this p) = visibleObjects p"
  "fullDirtyObjects (tick_deletedObjects g this p) = fullDirtyObjects p"
  "partialDirtyObjects (tick_deletedObjects g this p) = partialDirtyObjects p"
  "deletedObjects (tick_deletedObjects g this p)
     = deletedObjects p \<union> {object \<in> set (game_deletedObjects g).
          object \<in> visibleObjects p \<and> object \<noteq> this}"
  by (simp_all add: tick_deletedObjects_def fold_deletedObjects)

text \<open>
  C3: the projection adds to the player's full set exactly the globally full-dirty objects
  that are visible to the player, to the player's partial set exactly the globally
  partial-dirty objects that are visible and not in the player's full set (full wins
  over partial), and to the player's deleted set only globally deleted objects that are
  visible (all of them but the player itself); the visible set is not changed.
\<close>

theorem tick_dirtyObjects_projection:
  "fullDirtyObjects (tick_dirtyObjects g this p)
     = fullDirtyObjects p \<union> (set (game_fullDirtyObjects g) \<inter> visibleObjects p) \<and>
   partialDirtyObjects (tick_dirtyObjects g this p)
     = partialDirtyObjects p \<union>
         {object \<in> set (game_partialDirtyObjects g).
            object \<in> visibleObjects p \<and>
            object \<notin> fullDirtyObjects (tick_dirtyObjects g this p)} \<and>
   deletedObjects (tick_dirtyObjects g this p)
     = deletedObjects p \<union>
         {object \<in> set (game_deletedObjects g). object \<in> visibleObjects p \<and> object \<noteq> this} \<and>
   visibleObjects (tick_dirtyObjects g this p) = visibleObjects p"
  by (auto simp: tick_dirtyObjects_def tick_fullObjects_sets tick_partialObjects_sets
      tick_deletedObjects_sets)

text \<open>
  The scenario of C3, with the objects A, B, C, D as 1, 2, 3, 4 and the player as 0:
  visible = {A, B}, full = {B, C}, partial = {A}, deleted = {D} give the player
  full = {B}, partial = {A}, deleted = {}.
\<close>

theorem tick_dirtyObjects_projection_witness:
  "fullDirtyObjects (tick_dirtyObjects
      (newGame\<lparr>game_fullDirtyObjects := [2, 3], game_partialDirtyObjects := [1],
               game_deletedObjects := [4]\<rparr>) 0
      ((newPlayer (v 0 0))\<lparr>visibleObjects := {1, 2}\<rparr>)) = {2} \<and>
   partialDirtyObjects (tick_dirtyObjects
      (newGame\<lparr>game_fullDirtyObjects := [2, 3], game_partialDirtyObjects := [1],
               game_deletedObjects := [4]\<rparr>) 0
      ((newPlayer (v 0 0))\<lparr>visibleObjects := {1, 2}\<rparr>)) = {1} \<and>
   deletedObjects (tick_dirtyObjects
      (newGame\<lparr>game_fullDirtyObjects := [2, 3], game_partialDirtyObjects := [1],
               game_deletedObjects := [4]\<rparr>) 0
      ((newPlayer (v 0 0))\<lparr>visibleObjects := {1, 2}\<rparr>)) = {}"
  using tick_dirtyObjects_projection
    [of "newGame\<lparr>game_fullDirtyObjects := [2, 3], game_partialDirtyObjects := [1],
               game_deletedObjects := [4]\<rparr>" 0
        "(newPlayer (v 0 0))\<lparr>visibleObjects := {1, 2}\<rparr>"]
  by (auto simp: newGame_def newPlayer_def setZoom_def)

section \<open>Properties of the collision filter\<close>

lemma atMostOneKind_cases:
  "atMostOneKind f \<longleftrightarrow>
     \<not> (player f \<and> obstacle f) \<and> \<not> (player f \<and> bullet f) \<and> \<not> (player f \<and> loot f) \<and>
     \<not> (obstacle f \<and> bullet f) \<and> \<not> (obstacle f \<and> loot f) \<and> \<not> (bullet f \<and> loot f)"
  by (auto simp: atMostOneKind_def)

text \<open>
  C5: for a subject of at most one kind, as every object of the sources is (the player,
  the death marker and the world boundary are shown here), the predicate is true exactly
  when some kind is set in the subject's \<open>is\<close> filter and in the other's
  \<open>collidesWith\<close> filter: the row of the matrix for a subject of a kind is the
  other's \<open>collidesWith\<close> flag of that kind, and a subject of no kind collides with
  nothing. With the filters that the sources contain the documented entries follow:
  players do not collide with players; players and the obstacle of the sources, the world
  boundary, collide from either side; a bullet collides with a player and with the
  boundary; loot collides with the boundary and not with a player; a death marker
  collides with nothing. The remaining entries are the \<open>collidesWith\<close> flags of
  \<open>Obstacle\<close>, \<open>Bullet\<close> and \<open>Loot\<close>, which the row law reads.
\<close>

theorem shouldCollide_iff_kind:
  assumes "atMostOneKind (is' a)"
  shows "(shouldCollide a b \<longleftrightarrow> specCollides a b) \<and>
         (player (is' a) \<longrightarrow> (shouldCollide a b \<longleftrightarrow> player (collidesWith b))) \<and>
         (obstacle (is' a) \<longrightarrow> (shouldCollide a b \<longleftrightarrow> obstacle (collidesWith b))) \<and>
         (bullet (is' a) \<longrightarrow> (shouldCollide a b \<longleftrightarrow> bullet (collidesWith b))) \<and>
         (loot (is' a) \<longrightarrow> (shouldCollide a b \<longleftrightarrow> loot (collidesWith b))) \<and>
         (\<not> player (is' a) \<and> \<not> obstacle (is' a) \<and> \<not> bullet (is' a) \<and> \<not> loot (is' a)
            \<longrightarrow> \<not> shouldCollide a b) \<and>
         atMostOneKind (is' playerUserData) \<and>
         atMostOneKind (is' deathMarkerUserData) \<and>
         atMostOneKind (is' worldBoundaryUserData) \<and>
         \<not> shouldCollide playerUserData playerUserData \<and>
         shouldCollide playerUserData worldBoundaryUserData \<and>
         shouldCollide worldBoundaryUserData playerUserData \<and>
         (player (is' a) \<longrightarrow>
            \<not> shouldCollide a playerUserData \<and> shouldCollide a worldBoundaryUserData) \<and>
         (obstacle (is' a) \<longrightarrow>
            shouldCollide a playerUserData \<and> \<not> shouldCollide a worldBoundaryUserData) \<and>
         (bullet (is' a) \<longrightarrow>
            shouldCollide a playerUserData \<and> shouldCollide a worldBoundaryUserData) \<and>
         (loot (is' a) \<longrightarrow>
            \<not> shouldCollide a playerUserData \<and> shouldCollide a worldBoundaryUserData) \<and>
         \<not> shouldCollide deathMarkerUserData b \<and>
         \<not> shouldCollide a deathMarkerUserData"
proof -
  note one = assms [unfolded atMostOneKind_cases]
  have spec: "shouldCollide a b \<longleftrightarrow> specCollides a b"
    using one by (auto simp: shouldCollide_def specCollides_def)
  have rows: "player (is' a) \<longrightarrow> (shouldCollide a b \<longleftrightarrow> player (collidesWith b))"
    "obstacle (is' a) \<longrightarrow> (shouldCollide a b \<longleftrightarrow> obstacle (collidesWith b))"
    "bullet (is' a) \<longrightarrow> (shouldCollide a b \<longleftrightarrow> bullet (collidesWith b))"
    "loot (is' a) \<longrightarrow> (shouldCollide a b \<longleftrightarrow> loot (collidesWith b))"
    "\<not> player (is' a) \<and> \<not> obstacle (is' a) \<and> \<not> bullet (is' a) \<and> \<not> loot (is' a)
       \<longrightarrow> \<not> shouldCollide a b"
    using one by (auto simp: shouldCollide_def)
  have kinds: "atMostOneKind (is' playerUserData)" "atMostOneKind (is' deathMarkerUserData)"
    "atMostOneKind (is' worldBoundaryUserData)"
    by (simp_all add: atMostOneKind_def playerUserData_def deathMarkerUserData_def
        worldBoundaryUserData_def)
  have sources: "\<not> shouldCollide playerUserData playerUserData"
    "shouldCollide playerUserData worldBoundaryUserData"
    "shouldCollide worldBoundaryUserData playerUserData"
    "\<not> shouldCollide deathMarkerUserData b"
    "\<not> shouldCollide a deathMarkerUserData"
    by (simp_all add: shouldCollide_def playerUserData_def deathMarkerUserData_def
        worldBoundaryUserData_def)
  have columns: "player (is' a) \<longrightarrow>
       \<not> shouldCollide a playerUserData \<and> shouldCollide a worldBoundaryUserData"
    "obstacle (is' a) \<longrightarrow>
       shouldCollide a playerUserData \<and> \<not> shouldCollide a worldBoundaryUserData"
    "bullet (is' a) \<longrightarrow>
       shouldCollide a playerUserData \<and> shouldCollide a worldBoundaryUserData"
    "loot (is' a) \<longrightarrow>
       \<not> shouldCollide a playerUserData \<and> shouldCollide a worldBoundaryUserData"
    using one by (auto simp: shouldCollide_def playerUserData_def worldBoundaryUserData_def)
  from spec rows kinds sources columns show ?thesis by blast
qed

text \<open>
  The theorem at the player as the subject and the world boundary as the other: the
  player is of one kind, the predicate agrees with the spec's condition, and the two
  collide.
\<close>

theorem shouldCollide_iff_kind_witness:
  "atMostOneKind (is' playerUserData) \<and>
   (shouldCollide playerUserData worldBoundaryUserData
      \<longleftrightarrow> specCollides playerUserData worldBoundaryUserData) \<and>
   shouldCollide playerUserData worldBoundaryUserData \<and>
   \<not> shouldCollide playerUserData playerUserData"
proof -
  have one: "atMostOneKind (is' playerUserData)"
    by (simp add: atMostOneKind_def playerUserData_def)
  show ?thesis
    using shouldCollide_iff_kind [OF one, of worldBoundaryUserData] by blast
qed

text \<open>
  The entries of the matrix that the sources do not decide, for the record: with the
  filters of \<open>Obstacle\<close>, \<open>Bullet\<close> and \<open>Loot\<close> as they are modelled from the
  spec, the predicate of the sources gives the documented entries between these classes
  and towards the player.
\<close>

lemma shouldCollide_modelled_filters:
  "shouldCollide playerUserData obstacleUserData \<and>
   shouldCollide obstacleUserData playerUserData \<and>
   \<not> shouldCollide playerUserData lootUserData \<and>
   \<not> shouldCollide lootUserData playerUserData \<and>
   shouldCollide bulletUserData playerUserData \<and>
   shouldCollide playerUserData bulletUserData \<and>
   shouldCollide bulletUserData obstacleUserData \<and>
   shouldCollide obstacleUserData bulletUserData \<and>
   \<not> shouldCollide bulletUserData bulletUserData \<and>
   \<not> shouldCollide bulletUserData lootUserData \<and>
   \<not> shouldCollide lootUserData bulletUserData \<and>
   shouldCollide lootUserData obstacleUserData \<and>
   shouldCollide obstacleUserData lootUserData \<and>
   shouldCollide lootUserData lootUserData"
  by (simp add: shouldCollide_def playerUserData_def obstacleUserData_def
      bulletUserData_def lootUserData_def)

section \<open>Properties of the spatial visibility index\<close>

lemma fold_map_upd_other:
  "k0 \<notin> k ` set cs \<Longrightarrow> fold (\<lambda>c m. m(k c \<mapsto> f c)) cs m0 k0 = m0 k0"
  by (induction cs arbitrary: m0) auto

lemma fold_map_upd_in:
  "distinct cs \<Longrightarrow> inj_on k (set cs) \<Longrightarrow> c \<in> set cs \<Longrightarrow>
     fold (\<lambda>c m. m(k c \<mapsto> f c)) cs m0 (k c) = Some (f c)"
proof (induction cs arbitrary: m0)
  case Nil
  then show ?case by simp
next
  case (Cons a cs)
  show ?case
  proof (cases "c = a")
    case True
    have notin: "k a \<notin> k ` set cs" using Cons.prems(1,2) by (auto simp: inj_on_def)
    have "fold (\<lambda>c m. m(k c \<mapsto> f c)) (a # cs) m0 (k a)
            = fold (\<lambda>c m. m(k c \<mapsto> f c)) cs (m0(k a \<mapsto> f a)) (k a)"
      by simp
    also have "\<dots> = (m0(k a \<mapsto> f a)) (k a)" by (rule fold_map_upd_other [OF notin])
    also have "\<dots> = Some (f a)" by simp
    finally have r: "fold (\<lambda>c m. m(k c \<mapsto> f c)) (a # cs) m0 (k a) = Some (f a)" .
    show ?thesis unfolding True by (rule r)
  next
    case False
    then show ?thesis using Cons by (auto simp: inj_on_def)
  qed
qed

lemma grid_key_inj: "inj_on (\<lambda>c. int (c * 10)) A"
  by (simp add: inj_on_def)

lemma Map_cellVisibleObjects_fold:
  "fold (\<lambda>object visible.
           case objectPosition g object of
             None \<Rightarrow> visible
           | Some pos \<Rightarrow> if W pos then insert object visible else visible) objs A
     = A \<union> {object \<in> set objs. \<exists>pos. objectPosition g object = Some pos \<and> W pos}"
  by (induction objs arbitrary: A) (auto split: option.splits)

lemma Map_cellVisibleObjects_eq:
  "Map_cellVisibleObjects g xCull yCull cx cy =
     {object \<in> set (staticObjects g).
        \<exists>pos. objectPosition g object = Some pos \<and>
          \<bar>x pos - real (cx * 10)\<bar> < xCull \<and> \<bar>y pos - real (cy * 10)\<bar> < yCull}"
proof -
  have w: "\<And>pos. (x pos > real (cx * 10) - xCull \<and> x pos < real (cx * 10) + xCull \<and>
              y pos > real (cy * 10) - yCull \<and> y pos < real (cy * 10) + yCull)
            \<longleftrightarrow> (\<bar>x pos - real (cx * 10)\<bar> < xCull \<and> \<bar>y pos - real (cy * 10)\<bar> < yCull)"
    by (auto simp: abs_less_iff)
  show ?thesis
    unfolding Map_cellVisibleObjects_def Let_def Map_cellVisibleObjects_fold
    by (simp only: w) simp
qed

lemma Map_columnVisibleObjects_lookup:
  "cy \<le> mapHeight div 10 \<Longrightarrow>
     Map_columnVisibleObjects g xCull yCull cx (int (cy * 10))
       = Some (Map_cellVisibleObjects g xCull yCull cx cy)"
  unfolding Map_columnVisibleObjects_def
proof (rule fold_map_upd_in [where k = "\<lambda>c. int (c * 10)"])
  show "distinct [0..<Suc (mapHeight div 10)]" by simp
  show "inj_on (\<lambda>c. int (c * 10)) (set [0..<Suc (mapHeight div 10)])" by (rule grid_key_inj)
  assume "cy \<le> mapHeight div 10"
  then show "cy \<in> set [0..<Suc (mapHeight div 10)]" by auto
qed

lemma Map_zoomVisibleObjects_lookup:
  "cx \<le> mapWidth div 10 \<Longrightarrow>
     Map_zoomVisibleObjects g zoomLevel (int (cx * 10))
       = Some (Map_columnVisibleObjects g (zoomLevel * 1.75) (zoomLevel * 1.35) cx)"
  unfolding Map_zoomVisibleObjects_def Let_def
proof (rule fold_map_upd_in [where k = "\<lambda>c. int (c * 10)"])
  show "distinct [0..<Suc (mapWidth div 10)]" by simp
  show "inj_on (\<lambda>c. int (c * 10)) (set [0..<Suc (mapWidth div 10)])" by (rule grid_key_inj)
  assume "cx \<le> mapWidth div 10"
  then show "cx \<in> set [0..<Suc (mapWidth div 10)]" by auto
qed

lemma Map_zoomVisibleObjects_frame:
  "Map_zoomVisibleObjects (g\<lparr>game_visibleObjects := m\<rparr>) zoomLevel = Map_zoomVisibleObjects g zoomLevel"
  by (simp add: Map_zoomVisibleObjects_def Map_columnVisibleObjects_def
      Map_cellVisibleObjects_def objectPosition_def)

lemma Map_calculateVisibleObjects_lookup:
  "zoomLevel \<in> set supportedZoomLevels \<Longrightarrow>
     game_visibleObjects (Map_calculateVisibleObjects g) zoomLevel
       = Some (Map_zoomVisibleObjects g zoomLevel)"
  by (auto simp: Map_calculateVisibleObjects_def supportedZoomLevels_def
      Map_zoomVisibleObjects_frame)

lemma Map_calculateVisibleObjects_others:
  "staticObjects (Map_calculateVisibleObjects g) = staticObjects g"
  "objects (Map_calculateVisibleObjects g) = objects g"
  "dynamicObjects (Map_calculateVisibleObjects g) = dynamicObjects g"
  by (simp_all add: Map_calculateVisibleObjects_def supportedZoomLevels_def)

text \<open>
  C7 (as the code has it): for each supported zoom level (48 and 96) and each grid cell
  (0 to 72 in both directions, in steps of 10 units), the precomputed set of the cell
  holds exactly the static objects whose position lies strictly within the window
  centred on the cell with half-width 1.75 times the zoom level and half-height 1.35
  times the zoom level.
\<close>

theorem Map_visibleObjects_window:
  assumes "zoomLevel \<in> set supportedZoomLevels"
    and "cx \<le> mapWidth div 10" and "cy \<le> mapHeight div 10"
  shows "\<exists>grid row.
           game_visibleObjects (Map_calculateVisibleObjects g) zoomLevel = Some grid \<and>
           grid (int (cx * 10)) = Some row \<and>
           row (int (cy * 10)) =
             Some {object \<in> set (staticObjects g).
                     \<exists>pos. objectPosition g object = Some pos \<and>
                       \<bar>x pos - real (cx * 10)\<bar> < zoomLevel * 1.75 \<and>
                       \<bar>y pos - real (cy * 10)\<bar> < zoomLevel * 1.35}"
proof -
  have "game_visibleObjects (Map_calculateVisibleObjects g) zoomLevel
          = Some (Map_zoomVisibleObjects g zoomLevel)"
    by (rule Map_calculateVisibleObjects_lookup [OF assms(1)])
  moreover have "Map_zoomVisibleObjects g zoomLevel (int (cx * 10))
          = Some (Map_columnVisibleObjects g (zoomLevel * 1.75) (zoomLevel * 1.35) cx)"
    by (rule Map_zoomVisibleObjects_lookup [OF assms(2)])
  moreover have "Map_columnVisibleObjects g (zoomLevel * 1.75) (zoomLevel * 1.35) cx (int (cy * 10))
          = Some {object \<in> set (staticObjects g).
                     \<exists>pos. objectPosition g object = Some pos \<and>
                       \<bar>x pos - real (cx * 10)\<bar> < zoomLevel * 1.75 \<and>
                       \<bar>y pos - real (cy * 10)\<bar> < zoomLevel * 1.35}"
    unfolding Map_columnVisibleObjects_lookup [OF assms(3)] Map_cellVisibleObjects_eq ..
  ultimately show ?thesis by blast
qed

theorem Map_visibleObjects_window_witness:
  "\<exists>grid row.
     game_visibleObjects
       (Map_calculateVisibleObjects
          (newGame\<lparr>objects := [0 \<mapsto> OtherObject
                       \<lparr>is' = is' obstacleUserData, collidesWith = collidesWith obstacleUserData,
                        position = v 0 62, dead = False\<rparr>],
                    staticObjects := [0]\<rparr>)) 48 = Some grid \<and>
     grid 0 = Some row \<and> row 0 = Some {0}"
proof -
  have "(48::real) \<in> set supportedZoomLevels" "0 \<le> mapWidth div 10" "0 \<le> mapHeight div 10"
    by (simp_all add: supportedZoomLevels_def)
  from Map_visibleObjects_window [OF this,
      of "newGame\<lparr>objects := [0 \<mapsto> OtherObject
                       \<lparr>is' = is' obstacleUserData, collidesWith = collidesWith obstacleUserData,
                        position = v 0 62, dead = False\<rparr>],
                    staticObjects := [0]\<rparr>"]
  obtain grid row where
    "game_visibleObjects
       (Map_calculateVisibleObjects
          (newGame\<lparr>objects := [0 \<mapsto> OtherObject
                       \<lparr>is' = is' obstacleUserData, collidesWith = collidesWith obstacleUserData,
                        position = v 0 62, dead = False\<rparr>],
                    staticObjects := [0]\<rparr>)) 48 = Some grid"
    "grid 0 = Some row"
    "row 0 = Some {object \<in> {0::nat}.
        \<exists>pos. objectPosition (newGame\<lparr>objects := [0 \<mapsto> OtherObject
                       \<lparr>is' = is' obstacleUserData, collidesWith = collidesWith obstacleUserData,
                        position = v 0 62, dead = False\<rparr>],
                    staticObjects := [0]\<rparr>) object = Some pos \<and>
          \<bar>x pos - 0\<bar> < 48 * 1.75 \<and> \<bar>y pos - 0\<bar> < 48 * 1.35}"
    by (auto simp: newGame_def)
  moreover have "{object \<in> {0::nat}.
        \<exists>pos. objectPosition (newGame\<lparr>objects := [0 \<mapsto> OtherObject
                       \<lparr>is' = is' obstacleUserData, collidesWith = collidesWith obstacleUserData,
                        position = v 0 62, dead = False\<rparr>],
                    staticObjects := [0]\<rparr>) object = Some pos \<and>
          \<bar>x pos - 0\<bar> < 48 * 1.75 \<and> \<bar>y pos - 0\<bar> < 48 * 1.35} = {0}"
    by (auto simp: newGame_def objectPosition_def entityPosition_def v_def)
  ultimately show ?thesis by auto
qed

lemma Map_getVisibleObjects_origin:
  "getVisibleObjects (Map_calculateVisibleObjects g) (v 0 0) 48 =
     Inr (Some {object \<in> set (staticObjects g).
                 \<exists>pos. objectPosition g object = Some pos \<and>
                   \<bar>x pos\<bar> < 84 \<and> \<bar>y pos\<bar> < 64.8})"
proof -
  have z: "(48::real) \<in> set supportedZoomLevels" by (simp add: supportedZoomLevels_def)
  have r: "jsRound (x (v 0 0) / 10) * 10 = int (0 * 10)" "jsRound (y (v 0 0) / 10) * 10 = int (0 * 10)"
    by (simp_all add: jsRound_def v_def)
  have inside: "\<not> (x (v 0 0) < 0 \<or> x (v 0 0) > real mapWidth \<or> y (v 0 0) < 0 \<or> y (v 0 0) > real mapHeight)"
    by (simp add: v_def)
  have zl: "Map_zoomVisibleObjects g 48 (int (0 * 10))
      = Some (Map_columnVisibleObjects g (48 * 1.75) (48 * 1.35) 0)"
    by (rule Map_zoomVisibleObjects_lookup) simp
  have cl: "Map_columnVisibleObjects g (48 * 1.75) (48 * 1.35) 0 (int (0 * 10))
      = Some (Map_cellVisibleObjects g (48 * 1.75) (48 * 1.35) 0 0)"
    by (rule Map_columnVisibleObjects_lookup) simp
  have "getVisibleObjects (Map_calculateVisibleObjects g) (v 0 0) 48
      = Inr (Some (Map_cellVisibleObjects g (48 * 1.75) (48 * 1.35) 0 0))"
    unfolding getVisibleObjects_def Map_calculateVisibleObjects_lookup [OF z] r
    using inside by (simp only: zl cl option.case if_False)
  then show ?thesis by (simp add: Map_cellVisibleObjects_eq)
qed

text \<open>
  C7 (as stated, refuted): a static object at (0, 62) is in the precomputed set of the cell
  (0, 0) at zoom level 48, although its vertical distance from the cell, 62, is not
  below 48 times 1.25.
\<close>

theorem Map_visibleObjects_counterexample:
  "getVisibleObjects
     (Map_calculateVisibleObjects
        (newGame\<lparr>objects := [0 \<mapsto> OtherObject
                     \<lparr>is' = is' obstacleUserData, collidesWith = collidesWith obstacleUserData,
                      position = v 0 62, dead = False\<rparr>],
                  staticObjects := [0]\<rparr>))
     (v 0 0) 48 = Inr (Some {0}) \<and>
   \<not> \<bar>y (v 0 62) - 0\<bar> < 48 * 1.25"
  unfolding Map_getVisibleObjects_origin
  by (auto simp: newGame_def objectPosition_def entityPosition_def v_def)

section \<open>Properties of the damage to a player\<close>

subsection \<open>The store\<close>

lemma getPlayer_updPlayer:
  "getPlayer (updPlayer i f g) j = (if i = j then map_option f (getPlayer g j) else getPlayer g j)"
  by (auto simp: getPlayer_def updPlayer_def split: option.splits Entity.splits)

lemma getDeathMarker_updPlayer: "getDeathMarker (updPlayer i f g) j = getDeathMarker g j"
  by (auto simp: getDeathMarker_def updPlayer_def split: option.splits Entity.splits)

lemma objectPosition_updPlayer:
  "(\<And>q. position (f q) = position q) \<Longrightarrow> objectPosition (updPlayer i f g) j = objectPosition g j"
  by (auto simp: objectPosition_def updPlayer_def entityPosition_def split: option.splits Entity.splits)

lemma dom_updPlayer: "dom (objects (updPlayer i f g)) = dom (objects g)"
  by (auto simp: updPlayer_def split: option.splits Entity.splits)

lemma fields_updPlayer:
  "nextRef (updPlayer i f g) = nextRef g"
  "now (updPlayer i f g) = now g"
  "staticObjects (updPlayer i f g) = staticObjects g"
  "dynamicObjects (updPlayer i f g) = dynamicObjects g"
  "game_visibleObjects (updPlayer i f g) = game_visibleObjects g"
  "updateObjects (updPlayer i f g) = updateObjects g"
  "aliveCountDirty (updPlayer i f g) = aliveCountDirty g"
  "game_partialDirtyObjects (updPlayer i f g) = game_partialDirtyObjects g"
  "game_fullDirtyObjects (updPlayer i f g) = game_fullDirtyObjects g"
  "game_deletedObjects (updPlayer i f g) = game_deletedObjects g"
  "livingPlayers (updPlayer i f g) = livingPlayers g"
  "connectedPlayers (updPlayer i f g) = connectedPlayers g"
  "started (updPlayer i f g) = started g"
  "over (updPlayer i f g) = over g"
  "gas (updPlayer i f g) = gas g"
  by (simp_all add: updPlayer_def split: option.splits Entity.splits)

lemma getPlayer_frame:
  "objects g' = objects g \<Longrightarrow> getPlayer g' j = getPlayer g j"
  "objects g' = objects g \<Longrightarrow> getDeathMarker g' j = getDeathMarker g j"
  "objects g' = objects g \<Longrightarrow> objectPosition g' j = objectPosition g j"
  by (simp_all add: getPlayer_def getDeathMarker_def objectPosition_def)


lemma getPlayer_field_update:
  "getPlayer (nextRef_update u1 g) = getPlayer g"
  "getPlayer (now_update u2 g) = getPlayer g"
  "getPlayer (staticObjects_update u3 g) = getPlayer g"
  "getPlayer (dynamicObjects_update u4 g) = getPlayer g"
  "getPlayer (game_visibleObjects_update u5 g) = getPlayer g"
  "getPlayer (updateObjects_update u6 g) = getPlayer g"
  "getPlayer (aliveCountDirty_update u7 g) = getPlayer g"
  "getPlayer (game_partialDirtyObjects_update u8 g) = getPlayer g"
  "getPlayer (game_fullDirtyObjects_update u9 g) = getPlayer g"
  "getPlayer (game_deletedObjects_update u10 g) = getPlayer g"
  "getPlayer (livingPlayers_update u11 g) = getPlayer g"
  "getPlayer (connectedPlayers_update u12 g) = getPlayer g"
  "getPlayer (started_update u13 g) = getPlayer g"
  "getPlayer (over_update u14 g) = getPlayer g"
  "getPlayer (gas_update u15 g) = getPlayer g"
  "getPlayer (gasDirty_update u16 g) = getPlayer g"
  "getPlayer (gasPercentageDirty_update u17 g) = getPlayer g"
  by (simp_all add: getPlayer_def fun_eq_iff)

lemma getDeathMarker_field_update:
  "getDeathMarker (nextRef_update u18 g) = getDeathMarker g"
  "getDeathMarker (now_update u19 g) = getDeathMarker g"
  "getDeathMarker (staticObjects_update u20 g) = getDeathMarker g"
  "getDeathMarker (dynamicObjects_update u21 g) = getDeathMarker g"
  "getDeathMarker (game_visibleObjects_update u22 g) = getDeathMarker g"
  "getDeathMarker (updateObjects_update u23 g) = getDeathMarker g"
  "getDeathMarker (aliveCountDirty_update u24 g) = getDeathMarker g"
  "getDeathMarker (game_partialDirtyObjects_update u25 g) = getDeathMarker g"
  "getDeathMarker (game_fullDirtyObjects_update u26 g) = getDeathMarker g"
  "getDeathMarker (game_deletedObjects_update u27 g) = getDeathMarker g"
  "getDeathMarker (livingPlayers_update u28 g) = getDeathMarker g"
  "getDeathMarker (connectedPlayers_update u29 g) = getDeathMarker g"
  "getDeathMarker (started_update u30 g) = getDeathMarker g"
  "getDeathMarker (over_update u31 g) = getDeathMarker g"
  "getDeathMarker (gas_update u32 g) = getDeathMarker g"
  "getDeathMarker (gasDirty_update u33 g) = getDeathMarker g"
  "getDeathMarker (gasPercentageDirty_update u34 g) = getDeathMarker g"
  by (simp_all add: getDeathMarker_def fun_eq_iff)

lemma objectPosition_field_update:
  "objectPosition (nextRef_update u35 g) = objectPosition g"
  "objectPosition (now_update u36 g) = objectPosition g"
  "objectPosition (staticObjects_update u37 g) = objectPosition g"
  "objectPosition (dynamicObjects_update u38 g) = objectPosition g"
  "objectPosition (game_visibleObjects_update u39 g) = objectPosition g"
  "objectPosition (updateObjects_update u40 g) = objectPosition g"
  "objectPosition (aliveCountDirty_update u41 g) = objectPosition g"
  "objectPosition (game_partialDirtyObjects_update u42 g) = objectPosition g"
  "objectPosition (game_fullDirtyObjects_update u43 g) = objectPosition g"
  "objectPosition (game_deletedObjects_update u44 g) = objectPosition g"
  "objectPosition (livingPlayers_update u45 g) = objectPosition g"
  "objectPosition (connectedPlayers_update u46 g) = objectPosition g"
  "objectPosition (started_update u47 g) = objectPosition g"
  "objectPosition (over_update u48 g) = objectPosition g"
  "objectPosition (gas_update u49 g) = objectPosition g"
  "objectPosition (gasDirty_update u50 g) = objectPosition g"
  "objectPosition (gasPercentageDirty_update u51 g) = objectPosition g"
  by (simp_all add: objectPosition_def fun_eq_iff)

lemma getPlayer_new_marker:
  "getPlayer (g\<lparr>objects := (objects g')(r \<mapsto> DeathMarkerObject m)\<rparr>) j
     = (if j = r then None else getPlayer g' j)"
  by (simp add: getPlayer_def)

lemma getDeathMarker_new_marker:
  "getDeathMarker (g\<lparr>objects := (objects g')(r \<mapsto> DeathMarkerObject m)\<rparr>) j
     = (if j = r then Some m else getDeathMarker g' j)"
  by (simp add: getDeathMarker_def)

lemma getPlayer_not_marker: "getPlayer g j = Some p \<Longrightarrow> getDeathMarker g j = None"
  by (auto simp: getPlayer_def getDeathMarker_def split: option.splits Entity.splits)

lemma getPlayer_in_dom: "getPlayer g j = Some p \<Longrightarrow> j \<in> dom (objects g)"
  by (auto simp: getPlayer_def split: option.splits)

lemma validRefs_player: "validRefs g \<Longrightarrow> getPlayer g j = Some p \<Longrightarrow> j < nextRef g"
  using getPlayer_in_dom by (fastforce simp: validRefs_def)

lemma setHealth_fields:
  "health (setHealth h p) = (if h > 100 then 100 else h)"
  "dead (setHealth h p) = dead p"
  "invulnerable (setHealth h p) = invulnerable p"
  "position (setHealth h p) = position p"
  by (simp_all add: setHealth_def)

lemma setAdrenaline_fields:
  "health (setAdrenaline a p) = health p"
  "dead (setAdrenaline a p) = dead p"
  "invulnerable (setAdrenaline a p) = invulnerable p"
  "position (setAdrenaline a p) = position p"
  by (simp_all add: setAdrenaline_def Let_def)

lemma damage_death_player:
  assumes "validRefs g" and "getPlayer g j = Some q"
  shows "\<exists>q'. getPlayer (damage_death this sp g) j = Some q' \<and>
           health q' = (if j = this then 0 else health q) \<and>
           dead q' = (j = this \<or> dead q) \<and>
           invulnerable q' = invulnerable q"
proof -
  have "j \<noteq> nextRef g" using validRefs_player [OF assms] by simp
  then show ?thesis using assms(2)
    by (cases sp)
       (auto simp: damage_death_def Let_def getPlayer_updPlayer getPlayer_field_update
          getPlayer_new_marker fields_updPlayer setHealth_fields setAdrenaline_fields)
qed


lemma getDeathMarker_damage_death:
  "getDeathMarker (damage_death this sp g) j =
     (if j = nextRef g
      then Some \<lparr>is' = is' deathMarkerUserData, collidesWith = collidesWith deathMarkerUserData,
                 position = (case objectPosition g this of None \<Rightarrow> v 0 0 | Some pos \<Rightarrow> pos),
                 dead = False, player' = this, isNew = True\<rparr>
      else getDeathMarker g j)"
  by (cases sp)
     (simp_all add: damage_death_def Let_def getDeathMarker_updPlayer getDeathMarker_field_update
        getDeathMarker_new_marker fields_updPlayer objectPosition_field_update
        objectPosition_updPlayer setHealth_fields setAdrenaline_fields)

lemma fields_damage_death:
  "nextRef (damage_death this sp g) = Suc (nextRef g)"
  "dynamicObjects (damage_death this sp g)
     = setAdd (nextRef g) (setDelete this (dynamicObjects g))"
  "dom (objects (damage_death this sp g)) = insert (nextRef g) (dom (objects g))"
  by (cases sp; simp add: damage_death_def Let_def fields_updPlayer dom_updPlayer)+

lemma damage_death_validRefs: "validRefs g \<Longrightarrow> validRefs (damage_death this sp g)"
  by (auto simp: validRefs_def fields_damage_death setAdd_def setDelete_def less_Suc_eq)

lemma filter_removeAll_not: "\<not> P a \<Longrightarrow> filter P (removeAll a xs) = filter P xs"
  by (induction xs) auto

lemma damage_death_markers:
  assumes "validRefs g" and "getPlayer g this = Some p"
  shows "deathMarkersOf (damage_death this sp g) q
           = deathMarkersOf g q @ (if q = this then [nextRef g] else [])"
proof -
  let ?P = "\<lambda>object. map_option player' (getDeathMarker g object) = Some q"
  let ?P' = "\<lambda>object. map_option player' (getDeathMarker (damage_death this sp g) object) = Some q"
  let ?ys = "removeAll this (dynamicObjects g)"
  have fresh: "nextRef g \<notin> set ?ys" using assms(1) by (auto simp: validRefs_def)
  have nm: "\<not> ?P this" using getPlayer_not_marker [OF assms(2)] by simp
  have dyn: "dynamicObjects (damage_death this sp g) = ?ys @ [nextRef g]"
    using fresh by (simp add: fields_damage_death setAdd_def setDelete_def)
  have "filter ?P' ?ys = filter ?P ?ys"
    using fresh by (intro filter_cong) (auto simp: getDeathMarker_damage_death)
  also have "\<dots> = filter ?P (dynamicObjects g)"
    using nm by (rule filter_removeAll_not [where P = ?P and a = this])
  finally have old: "filter ?P' ?ys = deathMarkersOf g q" by (simp add: deathMarkersOf_def)
  have new: "?P' (nextRef g) \<longleftrightarrow> q = this"
    by (auto simp: getDeathMarker_damage_death)
  have "deathMarkersOf (damage_death this sp g) q = filter ?P' ?ys @ filter ?P' [nextRef g]"
    unfolding deathMarkersOf_def dyn by simp
  then show ?thesis unfolding old using new by simp
qed


lemma damage_apply_player:
  assumes "getPlayer g j = Some q"
  shows "\<exists>q'. getPlayer (damage_apply this a sp g) j = Some q' \<and>
           health q' = (if j = this then (if health q - a > 100 then 100 else health q - a)
                        else health q) \<and>
           dead q' = dead q \<and> invulnerable q' = invulnerable q"
  using assms
  by (cases sp)
     (auto simp: damage_apply_def Let_def getPlayer_updPlayer getPlayer_field_update
        setHealth_fields)

lemma damage_apply_frame:
  "getDeathMarker (damage_apply this a sp g) j = getDeathMarker g j"
  "dynamicObjects (damage_apply this a sp g) = dynamicObjects g"
  "nextRef (damage_apply this a sp g) = nextRef g"
  "dom (objects (damage_apply this a sp g)) = dom (objects g)"
  by (cases sp; simp add: damage_apply_def Let_def getDeathMarker_updPlayer
        getDeathMarker_field_update fields_updPlayer dom_updPlayer)+

lemma damage_apply_validRefs: "validRefs g \<Longrightarrow> validRefs (damage_apply this a sp g)"
  by (simp add: validRefs_def damage_apply_frame)

lemma damage_apply_markers:
  "deathMarkersOf (damage_apply this a sp g) q = deathMarkersOf g q"
  by (simp add: deathMarkersOf_def damage_apply_frame)

lemma damage_amount_cases:
  "damage_amount p a =
     (if dead p then 0 else if health p \<le> a then health p
      else if health p - a > 100 then health p - 100 else a)"
  by (auto simp: damage_amount_def Let_def)

lemma damage_not_player: "getPlayer g this = None \<Longrightarrow> damage this a src g = g"
  by (simp add: damage_def)

lemma damage_invulnerable:
  "getPlayer g this = Some p \<Longrightarrow> invulnerable p \<Longrightarrow> damage this a src g = g"
  by (simp add: damage_def)

lemma damage_unfold:
  assumes "getPlayer g this = Some p" and "\<not> invulnerable p"
  shows "\<exists>sp. damage this a src g =
           (if \<not> dead p \<and> health p \<le> a
            then damage_death this sp (damage_apply this (damage_amount p a) sp g)
            else damage_apply this (damage_amount p a) sp g)"
proof -
  let ?sp = "case src of None \<Rightarrow> None | Some s \<Rightarrow> if getPlayer g s \<noteq> None then Some s else None"
  obtain p4 where p4: "getPlayer (damage_apply this (damage_amount p a) ?sp g) this = Some p4"
    and h4: "health p4 = (if health p - damage_amount p a > 100 then 100
                          else health p - damage_amount p a)"
    and d4: "dead p4 = dead p"
    using damage_apply_player [OF assms(1), of this "damage_amount p a" ?sp] by auto
  have "(health p4 \<le> 0 \<and> \<not> dead p4) \<longleftrightarrow> (\<not> dead p \<and> health p \<le> a)"
    unfolding h4 d4 by (auto simp: damage_amount_cases)
  then have "damage this a src g =
           (if \<not> dead p \<and> health p \<le> a
            then damage_death this ?sp (damage_apply this (damage_amount p a) ?sp g)
            else damage_apply this (damage_amount p a) ?sp g)"
    using assms p4 by (simp add: damage_def Let_def)
  then show ?thesis by blast
qed

lemma damage_validRefs: "validRefs g \<Longrightarrow> validRefs (damage this a src g)"
proof (cases "getPlayer g this")
  case None
  assume "validRefs g" then show ?thesis using None by (simp add: damage_not_player)
next
  case (Some p)
  assume v: "validRefs g"
  show ?thesis
  proof (cases "invulnerable p")
    case True
    then show ?thesis using v Some by (simp add: damage_invulnerable)
  next
    case False
    obtain sp where "damage this a src g =
           (if \<not> dead p \<and> health p \<le> a
            then damage_death this sp (damage_apply this (damage_amount p a) sp g)
            else damage_apply this (damage_amount p a) sp g)"
      using damage_unfold [OF Some False] by blast
    then show ?thesis using v by (simp add: damage_apply_validRefs damage_death_validRefs)
  qed
qed

lemma damage_player:
  assumes "validRefs g" and "getPlayer g this = Some p" and "\<not> invulnerable p"
    and "getPlayer g j = Some q"
  shows "\<exists>q'. getPlayer (damage this a src g) j = Some q' \<and>
           invulnerable q' = invulnerable q \<and>
           health q' = (if j \<noteq> this then health q
                        else if dead q then (if health q > 100 then 100 else health q)
                        else if health q \<le> a then 0
                        else if health q - a > 100 then 100 else health q - a) \<and>
           dead q' = (dead q \<or> j = this \<and> health q \<le> a)"
proof -
  obtain sp where unf: "damage this a src g =
           (if \<not> dead p \<and> health p \<le> a
            then damage_death this sp (damage_apply this (damage_amount p a) sp g)
            else damage_apply this (damage_amount p a) sp g)"
    using damage_unfold [OF assms(2,3)] by blast
  let ?g4 = "damage_apply this (damage_amount p a) sp g"
  obtain q4 where q4: "getPlayer ?g4 j = Some q4"
    and h4: "health q4 = (if j = this then (if health q - damage_amount p a > 100 then 100
                                            else health q - damage_amount p a)
                          else health q)"
    and d4: "dead q4 = dead q" and i4: "invulnerable q4 = invulnerable q"
    using damage_apply_player [OF assms(4), of this "damage_amount p a" sp] by auto
  have same: "j = this \<Longrightarrow> q = p" using assms(2,4) by simp
  show ?thesis
  proof (cases "\<not> dead p \<and> health p \<le> a")
    case True
    obtain q5 where "getPlayer (damage_death this sp ?g4) j = Some q5"
      "health q5 = (if j = this then 0 else health q4)"
      "dead q5 = (j = this \<or> dead q4)" "invulnerable q5 = invulnerable q4"
      using damage_death_player [OF damage_apply_validRefs [OF assms(1)] q4, of this sp] by auto
    then show ?thesis using True unf h4 d4 i4 same by auto
  next
    case False
    then show ?thesis using unf q4 h4 d4 i4 same by (auto simp: damage_amount_cases)
  qed
qed

lemma damage_markers:
  assumes "validRefs g" and "getPlayer g this = Some p" and "\<not> invulnerable p"
  shows "deathMarkersOf (damage this a src g) q
           = deathMarkersOf g q @
               (if q = this \<and> \<not> dead p \<and> health p \<le> a then [nextRef g] else [])"
proof -
  obtain sp where unf: "damage this a src g =
           (if \<not> dead p \<and> health p \<le> a
            then damage_death this sp (damage_apply this (damage_amount p a) sp g)
            else damage_apply this (damage_amount p a) sp g)"
    using damage_unfold [OF assms(2,3)] by blast
  let ?g4 = "damage_apply this (damage_amount p a) sp g"
  obtain p4 where p4: "getPlayer ?g4 this = Some p4"
    using damage_apply_player [OF assms(2), of this "damage_amount p a" sp] by auto
  have m: "deathMarkersOf (damage_death this sp ?g4) q
             = deathMarkersOf g q @ (if q = this then [nextRef g] else [])"
    using damage_death_markers [OF damage_apply_validRefs [OF assms(1)] p4, of sp q]
    by (simp add: damage_apply_markers damage_apply_frame)
  show ?thesis unfolding unf using m by (auto simp: damage_apply_markers)
qed


lemma damageRun_invariant:
  assumes "validRefs g" and "getPlayer g this = Some p"
    and "length (deathMarkersOf g this) = (if dead p then 1 else 0)"
  shows "validRefs (damageRun calls g) \<and>
         (\<exists>p'. getPlayer (damageRun calls g) this = Some p' \<and>
               length (deathMarkersOf (damageRun calls g) this) = (if dead p' then 1 else 0))"
  using assms
proof (induction calls arbitrary: g p)
  case Nil
  then show ?case by (simp add: damageRun_def)
next
  case (Cons c calls)
  obtain target a src where c: "c = (target, a, src)" by (cases c) auto
  let ?g = "damage target a src g"
  have run: "damageRun (c # calls) g = damageRun calls ?g" by (simp add: damageRun_def c)
  have v: "validRefs ?g" by (rule damage_validRefs [OF Cons.prems(1)])
  have "\<exists>p'. getPlayer ?g this = Some p' \<and>
          length (deathMarkersOf ?g this) = (if dead p' then 1 else 0)"
  proof (cases "getPlayer g target")
    case None
    then show ?thesis using Cons.prems by (simp add: damage_not_player)
  next
    case (Some t)
    show ?thesis
    proof (cases "invulnerable t")
      case True
      then show ?thesis using Cons.prems Some by (simp add: damage_invulnerable)
    next
      case False
      obtain p' where "getPlayer ?g this = Some p'"
        "dead p' = (dead p \<or> this = target \<and> health p \<le> a)"
        using damage_player [OF Cons.prems(1) Some False Cons.prems(2), of a src] by auto
      moreover have "this = target \<Longrightarrow> t = p" using Some Cons.prems(2) by simp
      ultimately show ?thesis
        using damage_markers [OF Cons.prems(1) Some False, of a src this] Cons.prems(3)
        by auto
    qed
  qed
  then obtain p' where "getPlayer ?g this = Some p'"
    "length (deathMarkersOf ?g this) = (if dead p' then 1 else 0)" by blast
  from Cons.IH [OF v this] show ?case unfolding run .
qed

text \<open>
  C4: for a player of a game whose references are valid, a call of \<open>damage\<close> leaves the
  game as it is when the player is invulnerable. Otherwise the health after the call is
  between 0 and 100 when it was before, for every amount; the player is dead afterwards
  exactly when it was dead before or its health did not exceed the amount; for a player
  that was not dead the health is 0 afterwards exactly in that case; and the death
  sequence, seen through the death marker it creates, runs in that case and in no other:
  the call adds one death marker of the player when the player was not dead and its
  health did not exceed the amount, and none otherwise. Over every run of damage calls
  on any targets, a player that starts alive and without a death marker ends with
  exactly one death marker when dead and none when alive.
\<close>

theorem damage_clamp_and_death:
  assumes "validRefs g" and "getPlayer g this = Some p"
  shows "(invulnerable p \<longrightarrow> damage this amount source g = g) \<and>
         (\<not> invulnerable p \<longrightarrow>
            (\<exists>p'. getPlayer (damage this amount source g) this = Some p' \<and>
               (0 \<le> health p \<and> health p \<le> 100 \<longrightarrow> 0 \<le> health p' \<and> health p' \<le> 100) \<and>
               (dead p' \<longleftrightarrow> dead p \<or> health p \<le> amount) \<and>
               (\<not> dead p \<longrightarrow> (health p' = 0 \<longleftrightarrow> health p \<le> amount)) \<and>
               deathMarkersOf (damage this amount source g) this
                 = deathMarkersOf g this @
                     (if \<not> dead p \<and> health p \<le> amount then [nextRef g] else []))) \<and>
         (\<not> dead p \<and> deathMarkersOf g this = [] \<longrightarrow>
            (\<exists>p'. getPlayer (damageRun calls g) this = Some p' \<and>
               length (deathMarkersOf (damageRun calls g) this) = (if dead p' then 1 else 0)))"
proof (intro conjI impI)
  assume "invulnerable p"
  then show "damage this amount source g = g" using assms(2) by (rule damage_invulnerable [rotated])
next
  assume ni: "\<not> invulnerable p"
  obtain p' where p': "getPlayer (damage this amount source g) this = Some p'"
    and h: "health p' = (if dead p then (if health p > 100 then 100 else health p)
                        else if health p \<le> amount then 0
                        else if health p - amount > 100 then 100 else health p - amount)"
    and d: "dead p' = (dead p \<or> health p \<le> amount)"
    using damage_player [OF assms ni assms(2), of amount source] by auto
  have "0 \<le> health p \<and> health p \<le> 100 \<longrightarrow> 0 \<le> health p' \<and> health p' \<le> 100"
    unfolding h by auto
  moreover have "\<not> dead p \<longrightarrow> (health p' = 0 \<longleftrightarrow> health p \<le> amount)"
    unfolding h by auto
  ultimately show "\<exists>p'. getPlayer (damage this amount source g) this = Some p' \<and>
               (0 \<le> health p \<and> health p \<le> 100 \<longrightarrow> 0 \<le> health p' \<and> health p' \<le> 100) \<and>
               (dead p' \<longleftrightarrow> dead p \<or> health p \<le> amount) \<and>
               (\<not> dead p \<longrightarrow> (health p' = 0 \<longleftrightarrow> health p \<le> amount)) \<and>
               deathMarkersOf (damage this amount source g) this
                 = deathMarkersOf g this @
                     (if \<not> dead p \<and> health p \<le> amount then [nextRef g] else [])"
    using p' d damage_markers [OF assms ni, of amount source this] by auto
next
  assume "\<not> dead p \<and> deathMarkersOf g this = []"
  then have "length (deathMarkersOf g this) = (if dead p then 1 else 0)" by simp
  from damageRun_invariant [OF assms this]
  show "\<exists>p'. getPlayer (damageRun calls g) this = Some p' \<and>
               length (deathMarkersOf (damageRun calls g) this) = (if dead p' then 1 else 0)"
    by blast
qed


theorem damage_clamp_and_death_witness:
  "damage 1 50 None (newGame\<lparr>objects := [0 \<mapsto> PlayerObject ((newPlayer (v 10 10))\<lparr>invulnerable := False\<rparr>),
                          1 \<mapsto> PlayerObject (newPlayer (v 20 20))],
               nextRef := 2, dynamicObjects := [0, 1], livingPlayers := [0, 1]\<rparr>) = (newGame\<lparr>objects := [0 \<mapsto> PlayerObject ((newPlayer (v 10 10))\<lparr>invulnerable := False\<rparr>),
                          1 \<mapsto> PlayerObject (newPlayer (v 20 20))],
               nextRef := 2, dynamicObjects := [0, 1], livingPlayers := [0, 1]\<rparr>) \<and>
   (\<exists>p'. getPlayer (damage 0 130 (Some 1) (newGame\<lparr>objects := [0 \<mapsto> PlayerObject ((newPlayer (v 10 10))\<lparr>invulnerable := False\<rparr>),
                          1 \<mapsto> PlayerObject (newPlayer (v 20 20))],
               nextRef := 2, dynamicObjects := [0, 1], livingPlayers := [0, 1]\<rparr>)) 0 = Some p' \<and>
      0 \<le> health p' \<and> health p' \<le> 100 \<and> dead p' \<and> health p' = 0 \<and>
      deathMarkersOf (damage 0 130 (Some 1) (newGame\<lparr>objects := [0 \<mapsto> PlayerObject ((newPlayer (v 10 10))\<lparr>invulnerable := False\<rparr>),
                          1 \<mapsto> PlayerObject (newPlayer (v 20 20))],
               nextRef := 2, dynamicObjects := [0, 1], livingPlayers := [0, 1]\<rparr>)) 0 = [2]) \<and>
   (\<exists>p'. getPlayer (damageRun [(0, 30, Some 1), (0, 80, Some 1), (0, 50, Some 1)] (newGame\<lparr>objects := [0 \<mapsto> PlayerObject ((newPlayer (v 10 10))\<lparr>invulnerable := False\<rparr>),
                          1 \<mapsto> PlayerObject (newPlayer (v 20 20))],
               nextRef := 2, dynamicObjects := [0, 1], livingPlayers := [0, 1]\<rparr>)) 0 = Some p' \<and>
      length (deathMarkersOf (damageRun [(0, 30, Some 1), (0, 80, Some 1), (0, 50, Some 1)] (newGame\<lparr>objects := [0 \<mapsto> PlayerObject ((newPlayer (v 10 10))\<lparr>invulnerable := False\<rparr>),
                          1 \<mapsto> PlayerObject (newPlayer (v 20 20))],
               nextRef := 2, dynamicObjects := [0, 1], livingPlayers := [0, 1]\<rparr>)) 0)
        = (if dead p' then 1 else 0))"
proof -
  let ?g = "(newGame\<lparr>objects := [0 \<mapsto> PlayerObject ((newPlayer (v 10 10))\<lparr>invulnerable := False\<rparr>),
                          1 \<mapsto> PlayerObject (newPlayer (v 20 20))],
               nextRef := 2, dynamicObjects := [0, 1], livingPlayers := [0, 1]\<rparr>)"
  let ?p0 = "(newPlayer (v 10 10))\<lparr>invulnerable := False\<rparr>"
  let ?p1 = "newPlayer (v 20 20)"
  have val: "validRefs ?g" by (auto simp: validRefs_def newGame_def split: if_splits)
  have p0: "getPlayer ?g 0 = Some ?p0" and p1: "getPlayer ?g 1 = Some ?p1"
    by (simp_all add: getPlayer_def newGame_def)
  have f0: "\<not> invulnerable ?p0" "health ?p0 = 100" "\<not> dead ?p0"
    and f1: "invulnerable ?p1"
    by (simp_all add: newPlayer_def setZoom_def)
  have m0: "deathMarkersOf ?g 0 = []" and n: "nextRef ?g = 2"
    by (simp_all add: deathMarkersOf_def getDeathMarker_def newGame_def)
  note t0 = damage_clamp_and_death [OF val p0, of 130 "Some 1"
      "[(0, 30, Some 1), (0, 80, Some 1), (0, 50, Some 1)]"]
  note t1 = damage_clamp_and_death [OF val p1, of 50 None "[]"]
  have a: "damage 1 50 None ?g = ?g" using t1 f1 by blast
  have b: "\<exists>p'. getPlayer (damage 0 130 (Some 1) ?g) 0 = Some p' \<and>
      0 \<le> health p' \<and> health p' \<le> 100 \<and> dead p' \<and> health p' = 0 \<and>
      deathMarkersOf (damage 0 130 (Some 1) ?g) 0 = [2]"
    using t0 f0 m0 n by auto
  have c: "\<exists>p'. getPlayer (damageRun [(0, 30, Some 1), (0, 80, Some 1), (0, 50, Some 1)] ?g) 0 = Some p' \<and>
      length (deathMarkersOf (damageRun [(0, 30, Some 1), (0, 80, Some 1), (0, 50, Some 1)] ?g) 0)
        = (if dead p' then 1 else 0)"
    using t0 f0 m0 by blast
  from a b c show ?thesis by blast
qed

section \<open>Properties of the gas radius\<close>











section \<open>Properties of the recomputation of the visible set\<close>

lemma viewsGrow_refl: "viewsGrow this g g"
  by (auto simp: viewsGrow_def)

lemma viewsGrow_trans:
  assumes "viewsGrow this a b" and "viewsGrow this b c"
  shows "viewsGrow this a c"
  unfolding viewsGrow_def
proof (intro conjI allI impI)
  show "objectPosition c = objectPosition a" "dynamicObjects c = dynamicObjects a"
    using assms by (simp_all add: viewsGrow_def)
next
  fix j q assume "getPlayer a j = Some q"
  then obtain qb where b: "getPlayer b j = Some qb" "dead qb = dead q"
    "visibleObjects q \<subseteq> visibleObjects qb" "visibleObjects qb \<subseteq> insert this (visibleObjects q)"
    "this \<in> visibleObjects qb \<longrightarrow> this \<in> visibleObjects q \<or> this \<in> fullDirtyObjects qb"
    "fullDirtyObjects q \<subseteq> fullDirtyObjects qb" "deletedObjects q \<subseteq> deletedObjects qb"
    using assms(1) unfolding viewsGrow_def by blast
  obtain qc where c: "getPlayer c j = Some qc" "dead qc = dead qb"
    "visibleObjects qb \<subseteq> visibleObjects qc" "visibleObjects qc \<subseteq> insert this (visibleObjects qb)"
    "this \<in> visibleObjects qc \<longrightarrow> this \<in> visibleObjects qb \<or> this \<in> fullDirtyObjects qc"
    "fullDirtyObjects qb \<subseteq> fullDirtyObjects qc" "deletedObjects qb \<subseteq> deletedObjects qc"
    using assms(2) b(1) unfolding viewsGrow_def by blast
  show "\<exists>q'. getPlayer c j = Some q' \<and> dead q' = dead q \<and>
           visibleObjects q \<subseteq> visibleObjects q' \<and>
           visibleObjects q' \<subseteq> insert this (visibleObjects q) \<and>
           (this \<in> visibleObjects q' \<longrightarrow> this \<in> visibleObjects q \<or> this \<in> fullDirtyObjects q') \<and>
           fullDirtyObjects q \<subseteq> fullDirtyObjects q' \<and>
           deletedObjects q \<subseteq> deletedObjects q'"
    using b c by (intro exI [of _ qc]) blast
qed

lemma viewsGrow_updPlayer:
  assumes "\<And>q. position (f q) = position q \<and> dead (f q) = dead q \<and>
             visibleObjects q \<subseteq> visibleObjects (f q) \<and>
             visibleObjects (f q) \<subseteq> insert this (visibleObjects q) \<and>
             (this \<in> visibleObjects (f q) \<longrightarrow> this \<in> visibleObjects q \<or> this \<in> fullDirtyObjects (f q)) \<and>
             fullDirtyObjects q \<subseteq> fullDirtyObjects (f q) \<and>
             deletedObjects q \<subseteq> deletedObjects (f q)"
  shows "viewsGrow this g (updPlayer i f g)"
proof -
  have pos: "objectPosition (updPlayer i f g) = objectPosition g"
    using assms by (intro ext objectPosition_updPlayer) simp
  show ?thesis
    unfolding viewsGrow_def using assms pos
    by (auto simp: getPlayer_updPlayer fields_updPlayer)
qed

lemma updateVisibleObjects_step_grows:
  "viewsGrow this g (fst (updateVisibleObjects_step this minX minY maxX maxY object (g, nv)))"
proof (cases "getPlayer g this")
  case None
  then show ?thesis by (simp add: updateVisibleObjects_step_def viewsGrow_refl)
next
  case (Some p)
  show ?thesis
  proof (cases "objectPosition g object")
    case None
    then show ?thesis using Some by (simp add: updateVisibleObjects_step_def viewsGrow_refl)
  next
    case (Some pos)
    let ?g1 = "if object \<notin> visibleObjects p
               then updPlayer this (\<lambda>q. q\<lparr>fullDirtyObjects := insert object (fullDirtyObjects q)\<rparr>) g
               else g"
    let ?g2 = "case getPlayer ?g1 object of
                 None \<Rightarrow> ?g1
               | Some other \<Rightarrow>
                   if \<not> dead p \<and> this \<notin> visibleObjects other
                   then updPlayer object
                          (\<lambda>q. q\<lparr>visibleObjects := insert this (visibleObjects q),
                                 fullDirtyObjects := insert this (fullDirtyObjects q)\<rparr>) ?g1
                   else ?g1"
    have g1: "viewsGrow this g ?g1"
      by (auto intro!: viewsGrow_updPlayer simp: viewsGrow_refl)
    have g12: "viewsGrow this ?g1 ?g2"
      by (cases "getPlayer ?g1 object")
         (auto intro!: viewsGrow_updPlayer simp: viewsGrow_refl simp del: if_split split: if_splits)
    have g2: "viewsGrow this g ?g2" by (rule viewsGrow_trans [OF g1 g12])
    have del: "viewsGrow this g
        (updPlayer this (\<lambda>q. q\<lparr>deletedObjects := insert object (deletedObjects q)\<rparr>) g)"
      by (auto intro!: viewsGrow_updPlayer)
    show ?thesis
      using \<open>getPlayer g this = Some p\<close> Some g2 del
      by (simp add: updateVisibleObjects_step_def Let_def viewsGrow_refl)
  qed
qed

lemma updateVisibleObjects_fold_grows:
  "viewsGrow this g
     (fst (fold (updateVisibleObjects_step this minX minY maxX maxY) objs (g, nv)))"
proof (induction objs arbitrary: g nv)
  case Nil
  then show ?case by (simp add: viewsGrow_refl)
next
  case (Cons a objs)
  obtain g1 nv1 where st: "updateVisibleObjects_step this minX minY maxX maxY a (g, nv) = (g1, nv1)"
    by (cases "updateVisibleObjects_step this minX minY maxX maxY a (g, nv)")
  have "viewsGrow this g g1"
    using updateVisibleObjects_step_grows [of this g minX minY maxX maxY a nv] st by simp
  from viewsGrow_trans [OF this Cons.IH [of g1 nv1]] show ?case by (simp add: st)
qed


lemma objectPosition_player: "getPlayer g j = Some q \<Longrightarrow> objectPosition g j = Some (position q)"
  by (auto simp: getPlayer_def objectPosition_def entityPosition_def split: option.splits Entity.splits)

lemma updateVisibleObjects_step_gain:
  assumes self: "getPlayer g this = Some p" and alive: "\<not> dead p"
    and other: "getPlayer g other = Some q"
    and win: "x (position q) > minX \<and> x (position q) < maxX \<and>
              y (position q) > minY \<and> y (position q) < maxY"
  shows "\<exists>q'. getPlayer (fst (updateVisibleObjects_step this minX minY maxX maxY other (g, nv))) other
                 = Some q' \<and> this \<in> visibleObjects q'"
proof -
  let ?g1 = "if other \<notin> visibleObjects p
             then updPlayer this (\<lambda>q. q\<lparr>fullDirtyObjects := insert other (fullDirtyObjects q)\<rparr>) g
             else g"
  have "\<exists>q1. getPlayer ?g1 other = Some q1 \<and> visibleObjects q1 = visibleObjects q"
    using other by (cases "other \<notin> visibleObjects p") (auto simp: getPlayer_updPlayer)
  then obtain q1 where q1: "getPlayer ?g1 other = Some q1" "visibleObjects q1 = visibleObjects q"
    by blast
  have pos: "objectPosition g other = Some (position q)" by (rule objectPosition_player [OF other])
  show ?thesis
    using self alive pos win q1
    by (auto simp: updateVisibleObjects_step_def Let_def getPlayer_updPlayer)
qed

lemma updateVisibleObjects_fold_gain:
  assumes "other \<in> set objs" and "getPlayer g this = Some p" and "\<not> dead p"
    and "getPlayer g other = Some q"
    and "x (position q) > minX \<and> x (position q) < maxX \<and>
         y (position q) > minY \<and> y (position q) < maxY"
  shows "\<exists>q'. getPlayer (fst (fold (updateVisibleObjects_step this minX minY maxX maxY) objs (g, nv)))
                 other = Some q' \<and> this \<in> visibleObjects q'"
  using assms
proof (induction objs arbitrary: g nv p q)
  case Nil
  then show ?case by simp
next
  case (Cons a objs)
  obtain g1 nv1 where st: "updateVisibleObjects_step this minX minY maxX maxY a (g, nv) = (g1, nv1)"
    by (cases "updateVisibleObjects_step this minX minY maxX maxY a (g, nv)")
  have grow1: "viewsGrow this g g1"
    using updateVisibleObjects_step_grows [of this g minX minY maxX maxY a nv] st by simp
  have grow2: "viewsGrow this g1
      (fst (fold (updateVisibleObjects_step this minX minY maxX maxY) objs (g1, nv1)))"
    by (rule updateVisibleObjects_fold_grows)
  show ?case
  proof (cases "other = a")
    case True
    obtain q1 where q1: "getPlayer g1 other = Some q1" "this \<in> visibleObjects q1"
      using updateVisibleObjects_step_gain [OF Cons.prems(2,3,4,5), of nv] st True by auto
    then obtain q2 where
      "getPlayer (fst (fold (updateVisibleObjects_step this minX minY maxX maxY) objs (g1, nv1)))
         other = Some q2" "visibleObjects q1 \<subseteq> visibleObjects q2"
      using grow2 unfolding viewsGrow_def by blast
    then show ?thesis using q1 by (auto simp: st)
  next
    case False
    then have mem: "other \<in> set objs" using Cons.prems(1) by simp
    obtain p1 where p1: "getPlayer g1 this = Some p1" "dead p1 = dead p"
      using grow1 Cons.prems(2) unfolding viewsGrow_def by blast
    obtain q1 where q1: "getPlayer g1 other = Some q1"
      using grow1 Cons.prems(4) unfolding viewsGrow_def by blast
    have "objectPosition g1 other = objectPosition g other"
      using grow1 by (simp add: viewsGrow_def)
    then have "position q1 = position q"
      using objectPosition_player [OF q1] objectPosition_player [OF Cons.prems(4)] by simp
    then have win1: "x (position q1) > minX \<and> x (position q1) < maxX \<and>
         y (position q1) > minY \<and> y (position q1) < maxY"
      using Cons.prems(5) by simp
    have alive1: "\<not> dead p1" using p1 Cons.prems(3) by simp
    from Cons.IH [OF mem p1(1) alive1 q1 win1, of nv1] show ?thesis by (simp add: st)
  qed
qed

lemma updateVisibleObjects_Inr:
  assumes "updateVisibleObjects this g = Inr g'" and "getPlayer g this = Some p"
  shows "\<exists>near initial g2 nv.
           fold (updateVisibleObjects_step this
                   (x (position p) - xCullDist p) (y (position p) - yCullDist p)
                   (x (position p) + xCullDist p) (y (position p) + yCullDist p))
                (dynamicObjects g)
                (updPlayer this (\<lambda>q. q\<lparr>nearObjects := near\<rparr>)
                   (updPlayer this (\<lambda>q. q\<lparr>movesSinceLastUpdate := 0\<rparr>) g), initial)
             = (g2, nv) \<and>
           g' = updPlayer this (\<lambda>q. q\<lparr>visibleObjects := nv\<rparr>)
                  (updPlayer this
                     (\<lambda>q. q\<lparr>deletedObjects := deletedObjects q \<union>
                              {object \<in> visibleObjects q. object \<notin> nv}\<rparr>)
                     (updPlayer this
                        (\<lambda>q. q\<lparr>fullDirtyObjects := fullDirtyObjects q \<union>
                                 {object \<in> nv. object \<notin> visibleObjects q}\<rparr>) g2))"
  using assms
  by (auto simp: updateVisibleObjects_def Let_def fields_updPlayer
      split: sum.splits option.splits prod.splits intro!: prod.collapse [symmetric])


text \<open>
  C6: when \<open>updateVisibleObjects\<close> returns for a player, every object that is in the
  new visible set and was not in the old one is in the player's full set, every object
  that was in the old visible set and is not in the new one is in the player's deleted
  set, and every other player is still there; if this player is newly in the other's
  visible set, it is in the other's full set, and it is in the other's visible set
  whenever the other is a dynamic object inside this player's cull window and this
  player is not dead.
\<close>

theorem updateVisibleObjects_diff:
  assumes run: "updateVisibleObjects this g = Inr g'" and self: "getPlayer g this = Some p"
  shows "\<exists>p'. getPlayer g' this = Some p' \<and>
           visibleObjects p' - visibleObjects p \<subseteq> fullDirtyObjects p' \<and>
           visibleObjects p - visibleObjects p' \<subseteq> deletedObjects p' \<and>
           (\<forall>other q. other \<noteq> this \<and> getPlayer g other = Some q \<longrightarrow>
              (\<exists>q'. getPlayer g' other = Some q' \<and>
                 (this \<in> visibleObjects q' \<and> this \<notin> visibleObjects q
                    \<longrightarrow> this \<in> fullDirtyObjects q') \<and>
                 (other \<in> set (dynamicObjects g) \<and> \<not> dead p \<and>
                  x (position q) > x (position p) - xCullDist p \<and>
                  x (position q) < x (position p) + xCullDist p \<and>
                  y (position q) > y (position p) - yCullDist p \<and>
                  y (position q) < y (position p) + yCullDist p
                    \<longrightarrow> this \<in> visibleObjects q')))"
proof -
  let ?minX = "x (position p) - xCullDist p" and ?minY = "y (position p) - yCullDist p"
  let ?maxX = "x (position p) + xCullDist p" and ?maxY = "y (position p) + yCullDist p"
  obtain near initial g2 nv where
    fold_eq: "fold (updateVisibleObjects_step this ?minX ?minY ?maxX ?maxY) (dynamicObjects g)
                (updPlayer this (\<lambda>q. q\<lparr>nearObjects := near\<rparr>)
                   (updPlayer this (\<lambda>q. q\<lparr>movesSinceLastUpdate := 0\<rparr>) g), initial)
              = (g2, nv)"
    and g': "g' = updPlayer this (\<lambda>q. q\<lparr>visibleObjects := nv\<rparr>)
                  (updPlayer this
                     (\<lambda>q. q\<lparr>deletedObjects := deletedObjects q \<union>
                              {object \<in> visibleObjects q. object \<notin> nv}\<rparr>)
                     (updPlayer this
                        (\<lambda>q. q\<lparr>fullDirtyObjects := fullDirtyObjects q \<union>
                                 {object \<in> nv. object \<notin> visibleObjects q}\<rparr>) g2))"
    using updateVisibleObjects_Inr [OF run self] by blast
  let ?g1 = "updPlayer this (\<lambda>q. q\<lparr>nearObjects := near\<rparr>)
               (updPlayer this (\<lambda>q. q\<lparr>movesSinceLastUpdate := 0\<rparr>) g)"
  have self1: "getPlayer ?g1 this = Some (p\<lparr>movesSinceLastUpdate := 0, nearObjects := near\<rparr>)"
    using self by (simp add: getPlayer_updPlayer)
  have other1: "\<And>other. other \<noteq> this \<Longrightarrow> getPlayer ?g1 other = getPlayer g other"
    by (simp add: getPlayer_updPlayer)
  have grow: "viewsGrow this ?g1 g2"
    using updateVisibleObjects_fold_grows
      [of this ?g1 ?minX ?minY ?maxX ?maxY "dynamicObjects g" initial]
    by (simp add: fold_eq)
  obtain p2 where p2: "getPlayer g2 this = Some p2"
    and vis_lo: "visibleObjects p \<subseteq> visibleObjects p2"
    and vis_hi: "visibleObjects p2 \<subseteq> insert this (visibleObjects p)"
    and vis_new: "this \<in> visibleObjects p2 \<longrightarrow> this \<in> visibleObjects p \<or> this \<in> fullDirtyObjects p2"
    using grow self1 unfolding viewsGrow_def by fastforce
  let ?p' = "p2\<lparr>fullDirtyObjects := fullDirtyObjects p2 \<union> {object \<in> nv. object \<notin> visibleObjects p2},
                deletedObjects := deletedObjects p2 \<union> {object \<in> visibleObjects p2. object \<notin> nv},
                visibleObjects := nv\<rparr>"
  have p': "getPlayer g' this = Some ?p'"
    using p2 by (simp add: g' getPlayer_updPlayer)
  have full: "visibleObjects ?p' - visibleObjects p \<subseteq> fullDirtyObjects ?p'"
    using vis_hi vis_new by auto
  have deleted: "visibleObjects p - visibleObjects ?p' \<subseteq> deletedObjects ?p'"
    using vis_lo by auto
  have others: "\<exists>q'. getPlayer g' other = Some q' \<and>
                 (this \<in> visibleObjects q' \<and> this \<notin> visibleObjects q
                    \<longrightarrow> this \<in> fullDirtyObjects q') \<and>
                 (other \<in> set (dynamicObjects g) \<and> \<not> dead p \<and>
                  x (position q) > ?minX \<and> x (position q) < ?maxX \<and>
                  y (position q) > ?minY \<and> y (position q) < ?maxY
                    \<longrightarrow> this \<in> visibleObjects q')"
    if neq: "other \<noteq> this" and q: "getPlayer g other = Some q" for other q
  proof -
    have q1: "getPlayer ?g1 other = Some q" using other1 [OF neq] q by simp
    obtain q2 where q2: "getPlayer g2 other = Some q2"
      and new: "this \<in> visibleObjects q2 \<longrightarrow> this \<in> visibleObjects q \<or> this \<in> fullDirtyObjects q2"
      using grow q1 unfolding viewsGrow_def by blast
    have same: "getPlayer g' other = Some q2" using neq q2 by (simp add: g' getPlayer_updPlayer)
    have gain: "this \<in> visibleObjects q2"
      if "other \<in> set (dynamicObjects g)" and "\<not> dead p"
        and "x (position q) > ?minX \<and> x (position q) < ?maxX \<and>
             y (position q) > ?minY \<and> y (position q) < ?maxY"
    proof -
      have alive1: "\<not> dead (p\<lparr>movesSinceLastUpdate := 0, nearObjects := near\<rparr>)"
        using that(2) by simp
      from updateVisibleObjects_fold_gain [OF that(1) self1 alive1 q1 that(3), of initial]
      show ?thesis using q2 by (simp add: fold_eq)
    qed
    show ?thesis using same new gain by auto
  qed
  show ?thesis using p' full deleted others by blast
qed


lemma updateVisibleObjects_example_returns: "\<not> isl (updateVisibleObjects 0 (newGame\<lparr>objects :=
        [0 \<mapsto> PlayerObject ((newPlayer (v 1 2))\<lparr>visibleObjects := {3}\<rparr>),
         1 \<mapsto> PlayerObject (newPlayer (v 10 10)),
         2 \<mapsto> OtherObject \<lparr>is' = is' obstacleUserData,
                 collidesWith = collidesWith obstacleUserData, position = v 5 5, dead = False\<rparr>,
         3 \<mapsto> OtherObject \<lparr>is' = is' lootUserData,
                 collidesWith = collidesWith lootUserData, position = v 500 500, dead = False\<rparr>],
      nextRef := 4, staticObjects := [2], dynamicObjects := [0, 1, 3],
      game_visibleObjects := [48 \<mapsto> [0 \<mapsto> [0 \<mapsto> {2}]]]\<rparr>))"
  by code_simp

theorem updateVisibleObjects_diff_witness:
  "\<exists>g' p' q'.
     updateVisibleObjects 0 (newGame\<lparr>objects :=
        [0 \<mapsto> PlayerObject ((newPlayer (v 1 2))\<lparr>visibleObjects := {3}\<rparr>),
         1 \<mapsto> PlayerObject (newPlayer (v 10 10)),
         2 \<mapsto> OtherObject \<lparr>is' = is' obstacleUserData,
                 collidesWith = collidesWith obstacleUserData, position = v 5 5, dead = False\<rparr>,
         3 \<mapsto> OtherObject \<lparr>is' = is' lootUserData,
                 collidesWith = collidesWith lootUserData, position = v 500 500, dead = False\<rparr>],
      nextRef := 4, staticObjects := [2], dynamicObjects := [0, 1, 3],
      game_visibleObjects := [48 \<mapsto> [0 \<mapsto> [0 \<mapsto> {2}]]]\<rparr>) = Inr g' \<and>
     getPlayer g' 0 = Some p' \<and>
     visibleObjects p' - {3} \<subseteq> fullDirtyObjects p' \<and>
     {3} - visibleObjects p' \<subseteq> deletedObjects p' \<and>
     getPlayer g' 1 = Some q' \<and> 0 \<in> visibleObjects q' \<and> 0 \<in> fullDirtyObjects q'"
proof -
  let ?g = "(newGame\<lparr>objects :=
        [0 \<mapsto> PlayerObject ((newPlayer (v 1 2))\<lparr>visibleObjects := {3}\<rparr>),
         1 \<mapsto> PlayerObject (newPlayer (v 10 10)),
         2 \<mapsto> OtherObject \<lparr>is' = is' obstacleUserData,
                 collidesWith = collidesWith obstacleUserData, position = v 5 5, dead = False\<rparr>,
         3 \<mapsto> OtherObject \<lparr>is' = is' lootUserData,
                 collidesWith = collidesWith lootUserData, position = v 500 500, dead = False\<rparr>],
      nextRef := 4, staticObjects := [2], dynamicObjects := [0, 1, 3],
      game_visibleObjects := [48 \<mapsto> [0 \<mapsto> [0 \<mapsto> {2}]]]\<rparr>)"
  let ?p = "(newPlayer (v 1 2))\<lparr>visibleObjects := {3}\<rparr>"
  let ?q = "newPlayer (v 10 10)"
  obtain g' where run: "updateVisibleObjects 0 ?g = Inr g'"
    using updateVisibleObjects_example_returns by (cases "updateVisibleObjects 0 ?g") auto
  have self: "getPlayer ?g 0 = Some ?p" and other: "getPlayer ?g 1 = Some ?q"
    by (simp_all add: getPlayer_def newGame_def)
  have facts: "visibleObjects ?p = {3}" "\<not> dead ?p" "0 \<notin> visibleObjects ?q"
    "x (position ?q) > x (position ?p) - xCullDist ?p"
    "x (position ?q) < x (position ?p) + xCullDist ?p"
    "y (position ?q) > y (position ?p) - yCullDist ?p"
    "y (position ?q) < y (position ?p) + yCullDist ?p"
    "(1::nat) \<in> set (dynamicObjects ?g)"
    by (simp_all add: newPlayer_def setZoom_def v_def newGame_def)
  from updateVisibleObjects_diff [OF run self] obtain p' where
    p': "getPlayer g' 0 = Some p'"
    "visibleObjects p' - visibleObjects ?p \<subseteq> fullDirtyObjects p'"
    "visibleObjects ?p - visibleObjects p' \<subseteq> deletedObjects p'"
    and others: "\<forall>other q. other \<noteq> 0 \<and> getPlayer ?g other = Some q \<longrightarrow>
              (\<exists>q'. getPlayer g' other = Some q' \<and>
                 (0 \<in> visibleObjects q' \<and> 0 \<notin> visibleObjects q
                    \<longrightarrow> 0 \<in> fullDirtyObjects q') \<and>
                 (other \<in> set (dynamicObjects ?g) \<and> \<not> dead ?p \<and>
                  x (position q) > x (position ?p) - xCullDist ?p \<and>
                  x (position q) < x (position ?p) + xCullDist ?p \<and>
                  y (position q) > y (position ?p) - yCullDist ?p \<and>
                  y (position q) < y (position ?p) + yCullDist ?p
                    \<longrightarrow> 0 \<in> visibleObjects q'))"
    by blast
  from others other have "\<exists>q'. getPlayer g' 1 = Some q' \<and>
                 (0 \<in> visibleObjects q' \<and> 0 \<notin> visibleObjects ?q
                    \<longrightarrow> 0 \<in> fullDirtyObjects q') \<and>
                 (1 \<in> set (dynamicObjects ?g) \<and> \<not> dead ?p \<and>
                  x (position ?q) > x (position ?p) - xCullDist ?p \<and>
                  x (position ?q) < x (position ?p) + xCullDist ?p \<and>
                  y (position ?q) > y (position ?p) - yCullDist ?p \<and>
                  y (position ?q) < y (position ?p) + yCullDist ?p
                    \<longrightarrow> 0 \<in> visibleObjects q')"
    by (metis zero_neq_one)
  then obtain q' where "getPlayer g' 1 = Some q'" "0 \<in> visibleObjects q'" "0 \<in> fullDirtyObjects q'"
    using facts by blast
  then show ?thesis using run p' facts(1) by auto
qed

section \<open>Properties of the player pass of the tick\<close>

lemma updateVisibleObjects_step_snd:
  "snd (updateVisibleObjects_step this minX minY maxX maxY object (g, nv)) \<subseteq> insert object nv"
  by (auto simp: updateVisibleObjects_step_def Let_def split: option.splits)

lemma updateVisibleObjects_fold_snd:
  "snd (fold (updateVisibleObjects_step this minX minY maxX maxY) objs (g, nv)) \<subseteq> nv \<union> set objs"
proof (induction objs arbitrary: g nv)
  case Nil
  then show ?case by simp
next
  case (Cons a objs)
  obtain g1 nv1 where st: "updateVisibleObjects_step this minX minY maxX maxY a (g, nv) = (g1, nv1)"
    by (cases "updateVisibleObjects_step this minX minY maxX maxY a (g, nv)")
  have "nv1 \<subseteq> insert a nv"
    using updateVisibleObjects_step_snd [of this minX minY maxX maxY a g nv] st by simp
  then show ?case using Cons.IH [of g1 nv1] by (auto simp: st)
qed

lemma getVisibleObjects_table:
  assumes "getVisibleObjects g pos zoomLevel = Inr near"
    and "\<forall>z grid cx column cy objs.
           game_visibleObjects g z = Some grid \<and> grid cx = Some column \<and> column cy = Some objs
             \<longrightarrow> this \<notin> objs"
  shows "this \<notin> newSet near"
  using assms
  by (auto simp: getVisibleObjects_def newSet_def split: option.splits if_splits)

lemma updateVisibleObjects_Inr_table:
  assumes "updateVisibleObjects this g = Inr g'" and "getPlayer g this = Some p"
    and "\<forall>z grid cx column cy objs.
           game_visibleObjects g z = Some grid \<and> grid cx = Some column \<and> column cy = Some objs
             \<longrightarrow> this \<notin> objs"
  shows "\<exists>near initial g2 nv.
           this \<notin> initial \<and>
           fold (updateVisibleObjects_step this
                   (x (position p) - xCullDist p) (y (position p) - yCullDist p)
                   (x (position p) + xCullDist p) (y (position p) + yCullDist p))
                (dynamicObjects g)
                (updPlayer this (\<lambda>q. q\<lparr>nearObjects := near\<rparr>)
                   (updPlayer this (\<lambda>q. q\<lparr>movesSinceLastUpdate := 0\<rparr>) g), initial)
             = (g2, nv) \<and>
           g' = updPlayer this (\<lambda>q. q\<lparr>visibleObjects := nv\<rparr>)
                  (updPlayer this
                     (\<lambda>q. q\<lparr>deletedObjects := deletedObjects q \<union>
                              {object \<in> visibleObjects q. object \<notin> nv}\<rparr>)
                     (updPlayer this
                        (\<lambda>q. q\<lparr>fullDirtyObjects := fullDirtyObjects q \<union>
                                 {object \<in> nv. object \<notin> visibleObjects q}\<rparr>) g2))"
proof -
  let ?g0 = "updPlayer this (\<lambda>q. q\<lparr>movesSinceLastUpdate := 0\<rparr>) g"
  have table0: "\<forall>z grid cx column cy objs.
           game_visibleObjects ?g0 z = Some grid \<and> grid cx = Some column \<and> column cy = Some objs
             \<longrightarrow> this \<notin> objs"
    using assms(3) by (simp add: fields_updPlayer)
  obtain near where near: "getVisibleObjects ?g0 (position p) 48 = Inr near"
    using assms(1,2) by (auto simp: updateVisibleObjects_def Let_def split: sum.splits)
  have n: "this \<notin> newSet near" by (rule getVisibleObjects_table [OF near table0])
  let ?g1 = "updPlayer this (\<lambda>q. q\<lparr>nearObjects := near\<rparr>) ?g0"
  obtain initial where init: "(case game_visibleObjects ?g1 (zoom p) of
                         None \<Rightarrow> Inr (newSet near)
                       | Some visibleAtZoom \<Rightarrow>
                           (case visibleAtZoom (jsRound (x (position p) / 10) * 10) of
                              None \<Rightarrow> Inl TypeError
                            | Some row \<Rightarrow> Inr (newSet (row (jsRound (y (position p) / 10) * 10))))) = Inr initial"
    using assms(1,2) near by (auto simp: updateVisibleObjects_def Let_def split: sum.splits)
  have i: "this \<notin> initial"
    using init n assms(3)
    by (auto simp: fields_updPlayer newSet_def split: option.splits)
  obtain g2 nv where fold_eq: "fold (updateVisibleObjects_step this
                   (x (position p) - xCullDist p) (y (position p) - yCullDist p)
                   (x (position p) + xCullDist p) (y (position p) + yCullDist p))
                (dynamicObjects g) (?g1, initial) = (g2, nv)"
    by (meson surj_pair)
  have "g' = updPlayer this (\<lambda>q. q\<lparr>visibleObjects := nv\<rparr>)
                  (updPlayer this
                     (\<lambda>q. q\<lparr>deletedObjects := deletedObjects q \<union>
                              {object \<in> visibleObjects q. object \<notin> nv}\<rparr>)
                     (updPlayer this
                        (\<lambda>q. q\<lparr>fullDirtyObjects := fullDirtyObjects q \<union>
                                 {object \<in> nv. object \<notin> visibleObjects q}\<rparr>) g2))"
    using assms(1,2) near init fold_eq
    by (simp add: updateVisibleObjects_def Let_def fields_updPlayer)
  then show ?thesis using i fold_eq by blast
qed

lemma updateVisibleObjects_drops_self:
  assumes run: "updateVisibleObjects this g = Inr g'" and self: "getPlayer g this = Some p"
    and table: "\<forall>z grid cx column cy objs.
           game_visibleObjects g z = Some grid \<and> grid cx = Some column \<and> column cy = Some objs
             \<longrightarrow> this \<notin> objs"
    and gone: "this \<notin> set (dynamicObjects g)" and seen: "this \<in> visibleObjects p"
  shows "\<exists>p'. getPlayer g' this = Some p' \<and> this \<notin> visibleObjects p' \<and> this \<in> deletedObjects p'"
proof -
  let ?minX = "x (position p) - xCullDist p" and ?minY = "y (position p) - yCullDist p"
  let ?maxX = "x (position p) + xCullDist p" and ?maxY = "y (position p) + yCullDist p"
  obtain near initial g2 nv where
    init: "this \<notin> initial"
    and fold_eq: "fold (updateVisibleObjects_step this ?minX ?minY ?maxX ?maxY) (dynamicObjects g)
                (updPlayer this (\<lambda>q. q\<lparr>nearObjects := near\<rparr>)
                   (updPlayer this (\<lambda>q. q\<lparr>movesSinceLastUpdate := 0\<rparr>) g), initial)
              = (g2, nv)"
    and g': "g' = updPlayer this (\<lambda>q. q\<lparr>visibleObjects := nv\<rparr>)
                  (updPlayer this
                     (\<lambda>q. q\<lparr>deletedObjects := deletedObjects q \<union>
                              {object \<in> visibleObjects q. object \<notin> nv}\<rparr>)
                     (updPlayer this
                        (\<lambda>q. q\<lparr>fullDirtyObjects := fullDirtyObjects q \<union>
                                 {object \<in> nv. object \<notin> visibleObjects q}\<rparr>) g2))"
    using updateVisibleObjects_Inr_table [OF run self table] by blast
  let ?g1 = "updPlayer this (\<lambda>q. q\<lparr>nearObjects := near\<rparr>)
               (updPlayer this (\<lambda>q. q\<lparr>movesSinceLastUpdate := 0\<rparr>) g)"
  have self1: "getPlayer ?g1 this = Some (p\<lparr>movesSinceLastUpdate := 0, nearObjects := near\<rparr>)"
    using self by (simp add: getPlayer_updPlayer)
  have "nv \<subseteq> initial \<union> set (dynamicObjects g)"
    using updateVisibleObjects_fold_snd
      [of this ?minX ?minY ?maxX ?maxY "dynamicObjects g" ?g1 initial]
    by (simp add: fold_eq)
  then have out: "this \<notin> nv" using init gone by auto
  have grow: "viewsGrow this ?g1 g2"
    using updateVisibleObjects_fold_grows
      [of this ?g1 ?minX ?minY ?maxX ?maxY "dynamicObjects g" initial]
    by (simp add: fold_eq)
  obtain p2 where p2: "getPlayer g2 this = Some p2"
    and vis_lo: "visibleObjects p \<subseteq> visibleObjects p2"
    using grow self1 unfolding viewsGrow_def by fastforce
  let ?p' = "p2\<lparr>fullDirtyObjects := fullDirtyObjects p2 \<union> {object \<in> nv. object \<notin> visibleObjects p2},
                deletedObjects := deletedObjects p2 \<union> {object \<in> visibleObjects p2. object \<notin> nv},
                visibleObjects := nv\<rparr>"
  have p': "getPlayer g' this = Some ?p'"
    using p2 by (simp add: g' getPlayer_updPlayer)
  show ?thesis using p' out vis_lo seen by auto
qed

text \<open>
  C10 (as the code has it): the projection of the global deleted set never adds the player
  to the player's own deleted set: the player is in that set afterwards exactly when it
  was in it before, whatever the global deleted set and the visible set contain. The
  player does get into its own deleted set in the same pass of the tick, before the
  projection: when the pass recomputes the visible set of a joined player that is in its
  own visible set, is no longer among the dynamic objects (as after its death) and is in
  none of the precomputed sets of static objects, the player is in its own deleted set
  when the pass ends.
\<close>

theorem tick_player_deleted_self:
  "(this \<in> deletedObjects (tick_dirtyObjects g this p) \<longleftrightarrow> this \<in> deletedObjects p) \<and>
   (getPlayer g this = Some p \<and> joined p \<and> (movesSinceLastUpdate p > 8 \<or> updateObjects g) \<and>
    this \<in> visibleObjects p \<and> this \<notin> set (dynamicObjects g) \<and>
    (\<forall>z grid cx column cy objs.
        game_visibleObjects g z = Some grid \<and> grid cx = Some column \<and> column cy = Some objs
          \<longrightarrow> this \<notin> objs) \<and>
    tick_player this g = Inr g'
      \<longrightarrow> (\<exists>p'. getPlayer g' this = Some p' \<and> this \<in> deletedObjects p'))"
proof (intro conjI impI; (elim conjE)?)
  show "this \<in> deletedObjects (tick_dirtyObjects g this p) \<longleftrightarrow> this \<in> deletedObjects p"
    by (simp add: tick_dirtyObjects_def tick_fullObjects_sets tick_partialObjects_sets
        tick_deletedObjects_sets)
next
  assume self: "getPlayer g this = Some p" and joined: "joined p"
    and due: "movesSinceLastUpdate p > 8 \<or> updateObjects g"
    and seen: "this \<in> visibleObjects p" and gone: "this \<notin> set (dynamicObjects g)"
    and table: "\<forall>z grid cx column cy objs.
        game_visibleObjects g z = Some grid \<and> grid cx = Some column \<and> column cy = Some objs
          \<longrightarrow> this \<notin> objs"
    and pass: "tick_player this g = Inr g'"
  obtain g1 where run: "updateVisibleObjects this g = Inr g1"
    and g': "g' = updPlayer this (tick_dirtyObjects g1 this) g1"
    using pass self joined due by (auto simp: tick_player_def split: sum.splits)
  obtain p1 where p1: "getPlayer g1 this = Some p1" and del: "this \<in> deletedObjects p1"
    using updateVisibleObjects_drops_self [OF run self table gone seen] by blast
  have "getPlayer g' this = Some (tick_dirtyObjects g1 this p1)"
    using p1 by (simp add: g' getPlayer_updPlayer)
  moreover have "this \<in> deletedObjects (tick_dirtyObjects g1 this p1)"
    using del by (simp add: tick_dirtyObjects_def tick_fullObjects_sets tick_partialObjects_sets
        tick_deletedObjects_sets)
  ultimately show "\<exists>p'. getPlayer g' this = Some p' \<and> this \<in> deletedObjects p'" by blast
qed


text \<open>
  The theorem at a player 0 that the global deleted set contains and that sees itself,
  and at a dead player 0 that has left the dynamic objects and still sees itself.
\<close>

lemma tick_player_example_returns:
  "\<not> isl (tick_player 0 (newGame\<lparr>objects :=
        [0 \<mapsto> PlayerObject ((newPlayer (v 100 100))\<lparr>dead := True, joined := True,
                                  visibleObjects := {0}\<rparr>)],
      nextRef := 1, updateObjects := True,
      game_visibleObjects := [48 \<mapsto> [100 \<mapsto> [100 \<mapsto> {}]]]\<rparr>))"
  by code_simp

theorem tick_player_deleted_self_witness:
  "0 \<notin> deletedObjects (tick_dirtyObjects (newGame\<lparr>game_deletedObjects := [0, 4]\<rparr>) 0
      ((newPlayer (v 0 0))\<lparr>visibleObjects := {0, 4}\<rparr>)) \<and>
   (\<exists>g' p'.
      tick_player 0 (newGame\<lparr>objects :=
        [0 \<mapsto> PlayerObject ((newPlayer (v 100 100))\<lparr>dead := True, joined := True,
                                  visibleObjects := {0}\<rparr>)],
      nextRef := 1, updateObjects := True,
      game_visibleObjects := [48 \<mapsto> [100 \<mapsto> [100 \<mapsto> {}]]]\<rparr>) = Inr g' \<and>
      getPlayer g' 0 = Some p' \<and> 0 \<in> deletedObjects p')"
proof -
  let ?p = "(newPlayer (v 100 100))\<lparr>dead := True, joined := True, visibleObjects := {0}\<rparr>"
  let ?g = "newGame\<lparr>objects := [0 \<mapsto> PlayerObject ?p],
      nextRef := 1, updateObjects := True,
      game_visibleObjects := [48 \<mapsto> [100 \<mapsto> [100 \<mapsto> {}]]]\<rparr>"
  have guard: "0 \<notin> deletedObjects (tick_dirtyObjects (newGame\<lparr>game_deletedObjects := [0, 4]\<rparr>) 0
      ((newPlayer (v 0 0))\<lparr>visibleObjects := {0, 4}\<rparr>))"
    using tick_player_deleted_self
      [of 0 "newGame\<lparr>game_deletedObjects := [0, 4]\<rparr>"
          "(newPlayer (v 0 0))\<lparr>visibleObjects := {0, 4}\<rparr>"]
    by (simp add: newPlayer_def setZoom_def)
  obtain g' where pass: "tick_player 0 ?g = Inr g'"
    using tick_player_example_returns by (cases "tick_player 0 ?g") auto
  have self: "getPlayer ?g 0 = Some ?p" by (simp add: getPlayer_def)
  have facts: "joined ?p" "updateObjects ?g" "0 \<in> visibleObjects ?p"
    "0 \<notin> set (dynamicObjects ?g)"
    by (simp_all add: newGame_def)
  have table: "\<forall>z grid cx column cy objs.
        game_visibleObjects ?g z = Some grid \<and> grid cx = Some column \<and> column cy = Some objs
          \<longrightarrow> (0::nat) \<notin> objs"
    by (auto split: if_splits)
  have "\<exists>p'. getPlayer g' 0 = Some p' \<and> 0 \<in> deletedObjects p'"
    using tick_player_deleted_self [of 0 ?g ?p g'] self facts table pass by blast
  then show ?thesis using guard pass by blast
qed

text \<open>
  C10 (as stated, refuted): a player does receive a delete for its own object. The player
  0 joins and sees itself after the first recomputation of its visible set; a damage of
  100 kills it, which takes it out of the dynamic objects and not into the global deleted
  set; in its pass of the same tick the visible set is recomputed, and the player is in
  its own deleted set when the update is sent.
\<close>

theorem tick_player_self_delete_counterexample:
  "(case updateVisibleObjects 0 (newGame\<lparr>objects :=
        [0 \<mapsto> PlayerObject ((newPlayer (v 100 100))\<lparr>joined := True, invulnerable := False\<rparr>)],
      nextRef := 1, dynamicObjects := [0], livingPlayers := [0], connectedPlayers := [0],
      updateObjects := True,
      game_visibleObjects := [48 \<mapsto> [100 \<mapsto> [100 \<mapsto> {}]]]\<rparr>) of
      Inl e \<Rightarrow> False
    | Inr g1 \<Rightarrow>
        (case getPlayer g1 0 of
           None \<Rightarrow> False
         | Some p1 \<Rightarrow> 0 \<in> visibleObjects p1 \<and> 0 \<notin> deletedObjects p1) \<and>
        0 \<notin> set (game_deletedObjects (damage 0 100 None g1)) \<and>
        (case tick_player 0 (damage 0 100 None g1) of
           Inl e \<Rightarrow> False
         | Inr g3 \<Rightarrow>
             (case getPlayer g3 0 of
                None \<Rightarrow> False
              | Some p3 \<Rightarrow> dead p3 \<and> 0 \<in> deletedObjects p3)))"
  by code_simp

end
